theory Spec2Isabelle
  imports Main
begin

section \<open>The words service: participants, groups and the directory\<close>

text \<open>
  A shallow embedding of \<^verbatim>\<open>twisted/words/service.py\<close>. Python objects live in a store:
  a \<open>Participant\<close> or a \<open>Group\<close> is referred to by its address (a natural number), and the
  comparison of two such objects (\<^verbatim>\<open>in\<close>, \<^verbatim>\<open>list.remove\<close>, \<^verbatim>\<open>is\<close>) is the comparison
  of their addresses, since neither class defines an equality of its own. Every method
  takes the state and returns the new state together with its result; an exception is a
  value \<open>Inl e\<close>, and the state returned with it is the state at the moment of the raise
  (Python does not roll mutations back).
\<close>

subsection \<open>Values, errors and clients\<close>

type_synonym pid = nat
type_synonym gid = nat

text \<open>
  The arguments of the message methods are dynamically typed in the source (a sender
  that is a participant in one call is a string in another), so they are modelled as
  tagged values. \<open>VFailure\<close> is the failure object a Deferred hands to an errback.
\<close>

datatype pyval =
    VNone
  | VStr string
  | VDict "(string \<times> string) list"
  | VParticipant pid
  | VGroup gid
  | VFailure

text \<open>Python truth value: \<^verbatim>\<open>None\<close>, the empty string and the empty dict are false.\<close>

fun truthy :: "pyval \<Rightarrow> bool" where
  "truthy VNone = False"
| "truthy (VStr x) = (x \<noteq> [])"
| "truthy (VDict d) = (d \<noteq> [])"
| "truthy (VParticipant p) = True"
| "truthy (VGroup g) = True"
| "truthy VFailure = True"

text \<open>The status "enumeration" of the source: three integer constants.\<close>

definition OFFLINE :: int where "OFFLINE = 0"
definition ONLINE :: int where "ONLINE = 1"
definition AWAY :: int where "AWAY = 2"

datatype error =
    NotInCollectionError string
  | NotInGroupError string "string option"
  | UserNonexistantError string
  | WrongStatusError int string
  | Unauthorized string
  | AttributeError
  | TypeError
  | ValueError

text \<open>
  What a client answers to a message pushed with metadata: \<^verbatim>\<open>None\<close> (an in-process
  client), a Deferred that succeeds, or a Deferred that fails. A failing Deferred runs
  the errback registered with \<^verbatim>\<open>addErrback(f, a1, ..., an)\<close> as
  \<^verbatim>\<open>f(x1, ..., xk, a1, ..., an)\<close>; the leading arguments \<open>x1 ... xk\<close> that the Deferred
  supplies are a parameter of the reply, the Deferred class not being part of this
  module. Twisted's Deferred supplies the failure: \<open>[VFailure]\<close>.
\<close>

datatype reply = ReturnsNone | DeferredSucceeds | DeferredFails "pyval list"

text \<open>
  A client handle. \<open>ephemeral\<close> says that the handle's class is \<^verbatim>\<open>styles.Ephemeral\<close>
  (a placeholder); it is read by \<open>attached\<close> only. A handle accepts every push of
  \<^verbatim>\<open>WordsClientInterface\<close>; a push is recorded in the state's \<open>events\<close>.
\<close>

record Client =
  cid :: nat
  ephemeral :: bool
  reply :: reply

datatype call =
    ReceiveContactList "(string \<times> int) list"
  | NotifyStatusChanged string int
  | ReceiveGroupMembers "string list" string
  | ReceiveDirectMessage string pyval "pyval option"
  | ReceiveGroupMessage string string pyval "pyval option"
  | MemberJoined string string
  | MemberLeft string string
  | SetGroupMetadata "(string \<times> string) list" string

subsection \<open>Objects and the state\<close>

record Participant =
  name :: string
  status :: int
  contacts :: "pid list"
  reverseContacts :: "pid list"
  groups :: "gid list"
  client :: "Client option"
  info :: string

record Group =
  group_name :: string
  members :: "pid list"
  metadata :: "(string \<times> string) list"

text \<open>
  The state: the two stores, the next free address of each, the two dictionaries of the
  \<open>Service\<close>, the pushes received by clients so far (oldest first, each with the \<open>cid\<close>
  of the client that received it), and the exceptions that were raised inside an
  errback and therefore kept by the Deferred instead of reaching the caller.
\<close>

record state =
  parts :: "pid \<Rightarrow> Participant"
  grps :: "gid \<Rightarrow> Group"
  next_pid :: nat
  next_gid :: nat
  participants :: "string \<rightharpoonup> pid"
  service_groups :: "string \<rightharpoonup> gid"
  events :: "(nat \<times> call) list"
  unhandled :: "error list"

type_synonym 'a result = "state \<times> (error + 'a)"

definition new_Participant :: "string \<Rightarrow> Participant" where
  "new_Participant n =
     \<lparr>name = n, status = OFFLINE, contacts = [], reverseContacts = [], groups = [],
      client = None, info = []\<rparr>"

definition new_Group :: "string \<Rightarrow> Group" where
  "new_Group n =
     \<lparr>group_name = n, members = [],
      metadata = [(''topic'', ''Welcome to '' @ n @ ''!''), (''topic_author'', ''admin'')]\<rparr>"

definition empty_service :: state where
  "empty_service =
     \<lparr>parts = (\<lambda>_. new_Participant []), grps = (\<lambda>_. new_Group []),
      next_pid = 0, next_gid = 0, participants = Map.empty, service_groups = Map.empty,
      events = [], unhandled = []\<rparr>"

definition upd_participant :: "pid \<Rightarrow> (Participant \<Rightarrow> Participant) \<Rightarrow> state \<Rightarrow> state" where
  "upd_participant p f s = s\<lparr>parts := (parts s)(p := f (parts s p))\<rparr>"

definition upd_group :: "gid \<Rightarrow> (Group \<Rightarrow> Group) \<Rightarrow> state \<Rightarrow> state" where
  "upd_group g f s = s\<lparr>grps := (grps s)(g := f (grps s g))\<rparr>"

definition push :: "Client \<Rightarrow> call \<Rightarrow> state \<Rightarrow> state" where
  "push c e s = s\<lparr>events := events s @ [(cid c, e)]\<rparr>"

text \<open>A \<^verbatim>\<open>for\<close> loop whose body may raise: the first exception ends the loop.\<close>

fun for_each :: "('a \<Rightarrow> state \<Rightarrow> unit result) \<Rightarrow> 'a list \<Rightarrow> state \<Rightarrow> unit result" where
  "for_each f [] s = (s, Inr ())"
| "for_each f (x # xs) s =
     (case f x s of
        (s', Inl e) \<Rightarrow> (s', Inl e)
      | (s', Inr _) \<Rightarrow> for_each f xs s')"

text \<open>The attribute \<^verbatim>\<open>.name\<close>: participants and groups have one, other values do not.\<close>

fun attr_name :: "state \<Rightarrow> pyval \<Rightarrow> error + string" where
  "attr_name s (VParticipant p) = Inr (name (parts s p))"
| "attr_name s (VGroup g) = Inr (group_name (grps s g))"
| "attr_name s v = Inl AttributeError"

subsection \<open>Service\<close>

definition getGroup :: "string \<Rightarrow> state \<Rightarrow> state \<times> gid" where
  "getGroup n s =
     (case service_groups s n of
        Some g \<Rightarrow> (s, g)
      | None \<Rightarrow>
          (let g = next_gid s in
           (s\<lparr>grps := (grps s)(g := new_Group n), next_gid := Suc g,
              service_groups := (service_groups s)(n \<mapsto> g)\<rparr>, g)))"

definition createParticipant :: "string \<Rightarrow> state \<Rightarrow> state \<times> pid option" where
  "createParticipant n s =
     (case participants s n of
        None \<Rightarrow>
          (let p = next_pid s in
           (s\<lparr>parts := (parts s)(p := new_Participant n), next_pid := Suc p,
              participants := (participants s)(n \<mapsto> p)\<rparr>, Some p))
      | Some _ \<Rightarrow> (s, None))"

definition getPerspectiveNamed :: "string \<Rightarrow> state \<Rightarrow> error + pid" where
  "getPerspectiveNamed n s =
     (case participants s n of
        None \<Rightarrow> Inl (UserNonexistantError n)
      | Some p \<Rightarrow> Inr p)"

subsection \<open>Participant: notifications\<close>

definition notifyStatusChanged :: "pid \<Rightarrow> pid \<Rightarrow> state \<Rightarrow> state" where
  "notifyStatusChanged self contact s =
     (case client (parts s self) of
        None \<Rightarrow> s
      | Some c \<Rightarrow>
          push c (NotifyStatusChanged (name (parts s contact)) (status (parts s contact))) s)"

definition changeStatus :: "pid \<Rightarrow> int \<Rightarrow> state \<Rightarrow> state" where
  "changeStatus self newStatus s =
     (let s1 = upd_participant self (\<lambda>p. p\<lparr>status := newStatus\<rparr>) s in
      foldl (\<lambda>t contact. notifyStatusChanged contact self t) s1
        (reverseContacts (parts s1 self)))"

definition setGroupMetadata :: "pid \<Rightarrow> (string \<times> string) list \<Rightarrow> string \<Rightarrow> state \<Rightarrow> state" where
  "setGroupMetadata self d groupName s =
     (case client (parts s self) of
        None \<Rightarrow> s
      | Some c \<Rightarrow> push c (SetGroupMetadata d groupName) s)"

definition memberJoined :: "pid \<Rightarrow> pid \<Rightarrow> gid \<Rightarrow> state \<Rightarrow> unit result" where
  "memberJoined self member g s =
     (case client (parts s self) of
        None \<Rightarrow> (s, Inl AttributeError)
      | Some c \<Rightarrow>
          (push c (MemberJoined (name (parts s member)) (group_name (grps s g))) s, Inr ()))"

definition memberLeft :: "pid \<Rightarrow> pid \<Rightarrow> gid \<Rightarrow> state \<Rightarrow> unit result" where
  "memberLeft self member g s =
     (case client (parts s self) of
        None \<Rightarrow> (s, Inl AttributeError)
      | Some c \<Rightarrow>
          (push c (MemberLeft (name (parts s member)) (group_name (grps s g))) s, Inr ()))"

subsection \<open>Group: membership\<close>

definition addMember :: "gid \<Rightarrow> pid \<Rightarrow> state \<Rightarrow> unit result" where
  "addMember g participant s =
     (if participant \<in> set (members (grps s g)) then (s, Inr ())
      else
        (case for_each (\<lambda>member. memberJoined member participant g) (members (grps s g)) s of
           (s1, Inl e) \<Rightarrow> (s1, Inl e)
         | (s1, Inr _) \<Rightarrow>
             (let s2 = setGroupMetadata participant (metadata (grps s1 g))
                         (group_name (grps s1 g)) s1
              in (upd_group g (\<lambda>r. r\<lparr>members := members r @ [participant]\<rparr>) s2, Inr ()))))"

definition removeMember :: "gid \<Rightarrow> pid \<Rightarrow> state \<Rightarrow> unit result" where
  "removeMember g participant s =
     (if participant \<in> set (members (grps s g)) then
        (let s1 = upd_group g (\<lambda>r. r\<lparr>members := remove1 participant (members r)\<rparr>) s in
         for_each (\<lambda>member. memberLeft member participant g) (members (grps s1 g)) s1)
      else
        (s, Inl (NotInGroupError (group_name (grps s g)) (Some (name (parts s participant))))))"

subsection \<open>Participant: contacts and groups\<close>

definition addContact :: "pid \<Rightarrow> string \<Rightarrow> state \<Rightarrow> unit result" where
  "addContact self contactName s =
     (case getPerspectiveNamed contactName s of
        Inl e \<Rightarrow> (s, Inl e)
      | Inr contact \<Rightarrow>
          (let s1 = upd_participant self (\<lambda>p. p\<lparr>contacts := contacts p @ [contact]\<rparr>) s;
               s2 = upd_participant contact
                      (\<lambda>p. p\<lparr>reverseContacts := reverseContacts p @ [self]\<rparr>) s1
           in (notifyStatusChanged self contact s2, Inr ())))"

definition removeContact :: "pid \<Rightarrow> string \<Rightarrow> state \<Rightarrow> unit result" where
  "removeContact self contactName s =
     (case find (\<lambda>c. name (parts s c) = contactName) (contacts (parts s self)) of
        None \<Rightarrow> (s, Inl (NotInCollectionError (''No such contact '' @ [CHR 0x27] @ contactName @ [CHR 0x27] @ ''.'')))
      | Some contact \<Rightarrow>
          (let s1 = upd_participant self (\<lambda>p. p\<lparr>contacts := remove1 contact (contacts p)\<rparr>) s
           in if self \<in> set (reverseContacts (parts s1 contact)) then
                (upd_participant contact
                   (\<lambda>p. p\<lparr>reverseContacts := remove1 self (reverseContacts p)\<rparr>) s1, Inr ())
              else (s1, Inl ValueError)))"

definition joinGroup :: "pid \<Rightarrow> string \<Rightarrow> state \<Rightarrow> unit result" where
  "joinGroup self n s =
     (case getGroup n s of
        (s1, g) \<Rightarrow>
          if g \<in> set (groups (parts s1 self)) then (s1, Inr ())
          else
            (case addMember g self s1 of
               (s2, Inl e) \<Rightarrow> (s2, Inl e)
             | (s2, Inr _) \<Rightarrow>
                 (upd_participant self (\<lambda>p. p\<lparr>groups := groups p @ [g]\<rparr>) s2, Inr ())))"

definition leaveGroup :: "pid \<Rightarrow> string \<Rightarrow> state \<Rightarrow> unit result" where
  "leaveGroup self n s =
     (case find (\<lambda>g. group_name (grps s g) = n) (groups (parts s self)) of
        None \<Rightarrow> (s, Inl (NotInGroupError n None))
      | Some g \<Rightarrow>
          removeMember g self
            (upd_participant self (\<lambda>p. p\<lparr>groups := remove1 g (groups p)\<rparr>) s))"

text \<open>
  \<open>getGroupMembers\<close>: the loop body pushes for every group of that name and does not
  return; the \<^verbatim>\<open>raise\<close> after the loop is reached whenever the loop ends.
\<close>

definition getGroupMembers :: "pid \<Rightarrow> string \<Rightarrow> state \<Rightarrow> unit result" where
  "getGroupMembers self groupName s =
     (case for_each
             (\<lambda>g t. if group_name (grps t g) = groupName then
                      (case client (parts t self) of
                         None \<Rightarrow> (t, Inl AttributeError)
                       | Some c \<Rightarrow>
                           (push c (ReceiveGroupMembers
                                      (map (\<lambda>m. name (parts t m)) (members (grps t g)))
                                      (group_name (grps t g))) t, Inr ()))
                    else (t, Inr ()))
             (groups (parts s self)) s of
        (s1, Inl e) \<Rightarrow> (s1, Inl e)
      | (s1, Inr _) \<Rightarrow> (s1, Inl (NotInGroupError groupName None)))"

subsection \<open>Participant: sessions\<close>

text \<open>
  \<open>attached\<close> and \<open>detached\<close> also take an \<^verbatim>\<open>identity\<close>, and \<open>detached\<close> a \<^verbatim>\<open>client\<close>,
  which the source never reads; they are left out, as is the logging.
\<close>

definition attached :: "pid \<Rightarrow> Client \<Rightarrow> state \<Rightarrow> pid result" where
  "attached self c s =
     (if (case client (parts s self) of None \<Rightarrow> False | Some old \<Rightarrow> \<not> ephemeral old) then
        (s, Inl (Unauthorized ''duplicate login not permitted.''))
      else
        (let s1 = upd_participant self (\<lambda>p. p\<lparr>client := Some c\<rparr>) s;
             s2 = push c (ReceiveContactList
                            (map (\<lambda>k. (name (parts s1 k), status (parts s1 k)))
                               (contacts (parts s1 self)))) s1
         in (changeStatus self ONLINE s2, Inr self)))"

fun leave_all :: "pid \<Rightarrow> gid list \<Rightarrow> state \<Rightarrow> unit result" where
  "leave_all self [] s = (s, Inr ())"
| "leave_all self (g # gs) s =
     (case leaveGroup self (group_name (grps s g)) s of
        (s', Inl (NotInGroupError _ _)) \<Rightarrow> leave_all self gs s'
      | (s', Inl e) \<Rightarrow> (s', Inl e)
      | (s', Inr _) \<Rightarrow> leave_all self gs s')"

definition detached :: "pid \<Rightarrow> state \<Rightarrow> unit result" where
  "detached self s =
     (let s1 = upd_participant self (\<lambda>p. p\<lparr>client := None\<rparr>) s in
      case leave_all self (groups (parts s1 self)) s1 of
        (s2, Inl e) \<Rightarrow> (s2, Inl e)
      | (s2, Inr _) \<Rightarrow> (changeStatus self OFFLINE s2, Inr ()))"

subsection \<open>Participant: messages\<close>

text \<open>
  A bound method called with a list of positional arguments: \<open>receiveDirectMessage\<close>
  takes exactly three besides \<^verbatim>\<open>self\<close>, \<open>receiveGroupMessage\<close> exactly four; any other
  number is a \<^verbatim>\<open>TypeError\<close>.
\<close>

fun args3 :: "pyval list \<Rightarrow> (pyval \<times> pyval \<times> pyval) option" where
  "args3 [a, b, c] = Some (a, b, c)"
| "args3 xs = None"

fun args4 :: "pyval list \<Rightarrow> (pyval \<times> pyval \<times> pyval \<times> pyval) option" where
  "args4 [a, b, c, d] = Some (a, b, c, d)"
| "args4 xs = None"

text \<open>
  The result of an errback stays inside the Deferred: an exception raised there does
  not reach the code that called \<^verbatim>\<open>addErrback\<close>. It is kept in \<open>unhandled\<close>.
  The errback of a failing Deferred is run as soon as it is registered: when it runs
  does not change what it is called with, nor what it pushes.
\<close>

definition absorb :: "unit result \<Rightarrow> state" where
  "absorb r =
     (case r of
        (s, Inl e) \<Rightarrow> s\<lparr>unhandled := unhandled s @ [e]\<rparr>
      | (s, Inr _) \<Rightarrow> s)"

text \<open>
  \<open>receiveDirectMessage\<close>. With metadata, the errback registered on the client's
  Deferred is \<^verbatim>\<open>self.receiveDirectMessage\<close> with the arguments
  \<^verbatim>\<open>(sender.name, message, None)\<close>; when the Deferred fails, the method is called with
  the Deferred's own leading arguments followed by these.
\<close>

function receiveDirectMessage ::
  "pid \<Rightarrow> pyval \<Rightarrow> pyval \<Rightarrow> pyval \<Rightarrow> state \<Rightarrow> unit result" where
  "receiveDirectMessage self sender message md s =
     (case client (parts s self) of
        Some c \<Rightarrow>
          if truthy md then
            (case attr_name s sender of
               Inl e \<Rightarrow> (s, Inl e)
             | Inr senderName \<Rightarrow>
                 (let s1 = push c (ReceiveDirectMessage senderName message (Some md)) s in
                  case reply c of
                    ReturnsNone \<Rightarrow> (s1, Inr ())
                  | DeferredSucceeds \<Rightarrow> (s1, Inr ())
                  | DeferredFails pre \<Rightarrow>
                      (case args3 (pre @ [VStr senderName, message, VNone]) of
                         None \<Rightarrow> (absorb (s1, Inl TypeError), Inr ())
                       | Some (a1, a2, a3) \<Rightarrow>
                           (absorb (receiveDirectMessage self a1 a2 a3 s1), Inr ()))))
          else
            (case attr_name s sender of
               Inl e \<Rightarrow> (s, Inl e)
             | Inr senderName \<Rightarrow>
                 (push c (ReceiveDirectMessage senderName message None) s, Inr ()))
      | None \<Rightarrow> (s, Inl (WrongStatusError (status (parts s self)) (name (parts s self)))))"
  by pat_completeness auto
termination
  by (relation "measure (\<lambda>(self, sender, message, md, s). if truthy md then 1 else 0)")
     (auto elim!: args3.elims simp: append_eq_Cons_conv)

declare receiveDirectMessage.simps [simp del]

text \<open>
  \<open>receiveGroupMessage\<close>: the same, guarded by \<^verbatim>\<open>sender is not self and self.client\<close>;
  the errback's arguments are \<^verbatim>\<open>(sender, group, message, None)\<close>.
\<close>

function receiveGroupMessage ::
  "pid \<Rightarrow> pyval \<Rightarrow> pyval \<Rightarrow> pyval \<Rightarrow> pyval \<Rightarrow> state \<Rightarrow> unit result" where
  "receiveGroupMessage self sender grp message md s =
     (case (if sender \<noteq> VParticipant self then client (parts s self) else None) of
        Some c \<Rightarrow>
          if truthy md then
            (case attr_name s sender of
               Inl e \<Rightarrow> (s, Inl e)
             | Inr senderName \<Rightarrow>
                 (case attr_name s grp of
                    Inl e \<Rightarrow> (s, Inl e)
                  | Inr groupName \<Rightarrow>
                      (let s1 = push c (ReceiveGroupMessage senderName groupName message
                                          (Some md)) s in
                       case reply c of
                         ReturnsNone \<Rightarrow> (s1, Inr ())
                       | DeferredSucceeds \<Rightarrow> (s1, Inr ())
                       | DeferredFails pre \<Rightarrow>
                           (case args4 (pre @ [sender, grp, message, VNone]) of
                              None \<Rightarrow> (absorb (s1, Inl TypeError), Inr ())
                            | Some (a1, a2, a3, a4) \<Rightarrow>
                                (absorb (receiveGroupMessage self a1 a2 a3 a4 s1), Inr ())))))
          else
            (case attr_name s sender of
               Inl e \<Rightarrow> (s, Inl e)
             | Inr senderName \<Rightarrow>
                 (case attr_name s grp of
                    Inl e \<Rightarrow> (s, Inl e)
                  | Inr groupName \<Rightarrow>
                      (push c (ReceiveGroupMessage senderName groupName message None) s,
                       Inr ())))
      | None \<Rightarrow> (s, Inr ()))"
  by pat_completeness auto
termination
  by (relation "measure (\<lambda>(self, sender, grp, message, md, s). if truthy md then 1 else 0)")
     (auto elim!: args4.elims simp: append_eq_Cons_conv)

declare receiveGroupMessage.simps [simp del]

text \<open>\<^verbatim>\<open>metadata or {}\<close>\<close>

definition or_empty_dict :: "pyval \<Rightarrow> pyval" where
  "or_empty_dict md = (if truthy md then md else VDict [])"

definition sendMessage :: "gid \<Rightarrow> pyval \<Rightarrow> pyval \<Rightarrow> pyval \<Rightarrow> state \<Rightarrow> unit result" where
  "sendMessage g sender message md s =
     for_each (\<lambda>member. receiveGroupMessage member sender (VGroup g) message md)
       (members (grps s g)) s"

definition directMessage :: "pid \<Rightarrow> string \<Rightarrow> pyval \<Rightarrow> pyval \<Rightarrow> state \<Rightarrow> unit result" where
  "directMessage self recipientName message md s =
     (case getPerspectiveNamed recipientName s of
        Inl e \<Rightarrow> (s, Inl e)
      | Inr recipient \<Rightarrow>
          receiveDirectMessage recipient (VParticipant self) message (or_empty_dict md) s)"

definition groupMessage :: "pid \<Rightarrow> string \<Rightarrow> pyval \<Rightarrow> pyval \<Rightarrow> state \<Rightarrow> unit result" where
  "groupMessage self groupName message md s =
     (case find (\<lambda>g. group_name (grps s g) = groupName) (groups (parts s self)) of
        None \<Rightarrow> (s, Inl (NotInGroupError groupName None))
      | Some g \<Rightarrow> sendMessage g (VParticipant self) message (or_empty_dict md) s)"

subsection \<open>Sequences of calls\<close>

text \<open>
  The calls a transport layer makes. The acting participant is named and resolved
  through the directory, as every participant is; a call on an unknown name changes
  nothing. An exception is reported to the caller and the service goes on from the
  state the call left.
\<close>

datatype command =
    CreateParticipant string
  | GetGroup string
  | Attach string Client
  | Detach string
  | ChangeStatus string int
  | AddContact string string
  | RemoveContact string string
  | JoinGroup string string
  | LeaveGroup string string
  | GetGroupMembers string string
  | DirectMessage string string pyval pyval
  | GroupMessage string string pyval pyval

definition on_participant :: "string \<Rightarrow> (pid \<Rightarrow> state \<Rightarrow> state) \<Rightarrow> state \<Rightarrow> state" where
  "on_participant who f s =
     (case getPerspectiveNamed who s of
        Inl e \<Rightarrow> s
      | Inr p \<Rightarrow> f p s)"

fun perform :: "command \<Rightarrow> state \<Rightarrow> state" where
  "perform (CreateParticipant n) s = fst (createParticipant n s)"
| "perform (GetGroup n) s = fst (getGroup n s)"
| "perform (Attach who c) s = on_participant who (\<lambda>p t. fst (attached p c t)) s"
| "perform (Detach who) s = on_participant who (\<lambda>p t. fst (detached p t)) s"
| "perform (ChangeStatus who st) s = on_participant who (\<lambda>p t. changeStatus p st t) s"
| "perform (AddContact who n) s = on_participant who (\<lambda>p t. fst (addContact p n t)) s"
| "perform (RemoveContact who n) s = on_participant who (\<lambda>p t. fst (removeContact p n t)) s"
| "perform (JoinGroup who n) s = on_participant who (\<lambda>p t. fst (joinGroup p n t)) s"
| "perform (LeaveGroup who n) s = on_participant who (\<lambda>p t. fst (leaveGroup p n t)) s"
| "perform (GetGroupMembers who n) s =
     on_participant who (\<lambda>p t. fst (getGroupMembers p n t)) s"
| "perform (DirectMessage who n m md) s =
     on_participant who (\<lambda>p t. fst (directMessage p n m md t)) s"
| "perform (GroupMessage who n m md) s =
     on_participant who (\<lambda>p t. fst (groupMessage p n m md t)) s"

fun run :: "command list \<Rightarrow> state \<Rightarrow> state" where
  "run [] s = s"
| "run (c # cs) s = run cs (perform c s)"

subsection \<open>Notions used in the statements\<close>

text \<open>
  The notifications of a status change of \<open>self\<close>, one for each participant of \<open>ks\<close>
  that has a client, in the order of \<open>ks\<close>; \<open>ps\<close> is the store of participants.
\<close>

definition status_notes :: "(pid \<Rightarrow> Participant) \<Rightarrow> pid \<Rightarrow> pid list \<Rightarrow> (nat \<times> call) list" where
  "status_notes ps self ks =
     map (\<lambda>k. (cid k, NotifyStatusChanged (name (ps self)) (status (ps self))))
       (List.map_filter (\<lambda>k. client (ps k)) ks)"

text \<open>
  The pushes of a membership notice (\<open>MemberJoined\<close> or \<open>MemberLeft\<close>) to the
  participants of \<open>ms\<close> that have a client.
\<close>

definition member_notes ::
  "(string \<Rightarrow> string \<Rightarrow> call) \<Rightarrow> state \<Rightarrow> pid \<Rightarrow> gid \<Rightarrow> pid list \<Rightarrow> (nat \<times> call) list" where
  "member_notes mk s participant g ms =
     map (\<lambda>k. (cid k, mk (name (parts s participant)) (group_name (grps s g))))
       (List.map_filter (\<lambda>m. client (parts s m)) ms)"

definition has_client :: "state \<Rightarrow> pid \<Rightarrow> bool" where
  "has_client s p = (client (parts s p) \<noteq> None)"

text \<open>
  Consistency of the bookkeeping. The two relations are kept with multiplicity: a
  participant occurs in a list as often as the inverse entry occurs in the inverse list.
  Addresses not yet allocated hold nothing, and the directory refers to allocated
  addresses only.
\<close>

definition consistent :: "state \<Rightarrow> bool" where
  "consistent s =
     ((\<forall>a b. count_list (contacts (parts s a)) b = count_list (reverseContacts (parts s b)) a)
    \<and> (\<forall>p g. count_list (groups (parts s p)) g = count_list (members (grps s g)) p)
    \<and> (\<forall>p. next_pid s \<le> p \<longrightarrow>
           contacts (parts s p) = [] \<and> reverseContacts (parts s p) = []
         \<and> groups (parts s p) = [])
    \<and> (\<forall>g. next_gid s \<le> g \<longrightarrow> members (grps s g) = [])
    \<and> (\<forall>n p. participants s n = Some p \<longrightarrow> p < next_pid s)
    \<and> (\<forall>n g. service_groups s n = Some g \<longrightarrow> g < next_gid s))"

text \<open>Two states with the same objects and directory: only the logs may differ.\<close>

definition same_heap :: "state \<Rightarrow> state \<Rightarrow> bool" where
  "same_heap s t =
     (parts t = parts s \<and> grps t = grps s \<and> next_pid t = next_pid s
    \<and> next_gid t = next_gid s \<and> participants t = participants s
    \<and> service_groups t = service_groups s)"

text \<open>
  Two states with the same contacts, groups and members and the same directory: status,
  clients and logs may differ.
\<close>

definition same_links :: "state \<Rightarrow> state \<Rightarrow> bool" where
  "same_links s t =
     ((\<forall>p. contacts (parts t p) = contacts (parts s p)
          \<and> reverseContacts (parts t p) = reverseContacts (parts s p)
          \<and> groups (parts t p) = groups (parts s p))
    \<and> grps t = grps s \<and> next_pid t = next_pid s \<and> next_gid t = next_gid s
    \<and> participants t = participants s \<and> service_groups t = service_groups s)"

text \<open>
  Two states with the same directory of groups, in which every group has the same name
  and the same metadata: members may differ.
\<close>

definition groups_kept :: "state \<Rightarrow> state \<Rightarrow> bool" where
  "groups_kept s t =
     (service_groups t = service_groups s \<and> next_gid t = next_gid s
    \<and> (\<forall>g. group_name (grps t g) = group_name (grps s g)
           \<and> metadata (grps t g) = metadata (grps s g)))"

text \<open>
  The directory of groups refers to allocated groups, each under its own name.
\<close>

definition directory_named :: "state \<Rightarrow> bool" where
  "directory_named s =
     (\<forall>n g. service_groups s n = Some g \<longrightarrow> g < next_gid s \<and> group_name (grps s g) = n)"

subsection \<open>Example clients and states\<close>

definition plain_client :: "nat \<Rightarrow> Client" where
  "plain_client i = \<lparr>cid = i, ephemeral = False, reply = ReturnsNone\<rparr>"

text \<open>A remote client that does not take metadata: its Deferred fails.\<close>

definition strict_client :: "nat \<Rightarrow> Client" where
  "strict_client i = \<lparr>cid = i, ephemeral = False, reply = DeferredFails [VFailure]\<rparr>"

definition two_users :: state where
  "two_users = run [CreateParticipant ''alice'', CreateParticipant ''bob''] empty_service"

section \<open>Proofs\<close>

subsection \<open>Basic facts about the state\<close>

lemma push_simps [simp]:
  "parts (push c e s) = parts s"
  "grps (push c e s) = grps s"
  "next_pid (push c e s) = next_pid s"
  "next_gid (push c e s) = next_gid s"
  "participants (push c e s) = participants s"
  "service_groups (push c e s) = service_groups s"
  "events (push c e s) = events s @ [(cid c, e)]"
  "unhandled (push c e s) = unhandled s"
  by (simp_all add: push_def)

lemma upd_participant_simps [simp]:
  "parts (upd_participant p f s) = (parts s)(p := f (parts s p))"
  "grps (upd_participant p f s) = grps s"
  "next_pid (upd_participant p f s) = next_pid s"
  "next_gid (upd_participant p f s) = next_gid s"
  "participants (upd_participant p f s) = participants s"
  "service_groups (upd_participant p f s) = service_groups s"
  "events (upd_participant p f s) = events s"
  "unhandled (upd_participant p f s) = unhandled s"
  by (simp_all add: upd_participant_def)

lemma upd_group_simps [simp]:
  "parts (upd_group g f s) = parts s"
  "grps (upd_group g f s) = (grps s)(g := f (grps s g))"
  "next_pid (upd_group g f s) = next_pid s"
  "next_gid (upd_group g f s) = next_gid s"
  "participants (upd_group g f s) = participants s"
  "service_groups (upd_group g f s) = service_groups s"
  "events (upd_group g f s) = events s"
  "unhandled (upd_group g f s) = unhandled s"
  by (simp_all add: upd_group_def)

lemma plain_client_simps [simp]:
  "cid (plain_client i) = i"
  "ephemeral (plain_client i) = False"
  "reply (plain_client i) = ReturnsNone"
  by (simp_all add: plain_client_def)

lemma strict_client_simps [simp]:
  "cid (strict_client i) = i"
  "ephemeral (strict_client i) = False"
  "reply (strict_client i) = DeferredFails [VFailure]"
  by (simp_all add: strict_client_def)

subsection \<open>Status changes\<close>

lemma status_notes_Nil [simp]: "status_notes ps self [] = []"
  by (simp add: status_notes_def map_filter_simps)

lemma status_notes_Cons:
  "status_notes ps self (k # ks) =
     (case client (ps k) of
        None \<Rightarrow> []
      | Some c \<Rightarrow> [(cid c, NotifyStatusChanged (name (ps self)) (status (ps self)))])
     @ status_notes ps self ks"
  by (simp add: status_notes_def map_filter_simps split: option.splits)

lemma notifyStatusChanged_eq:
  "notifyStatusChanged k self s =
     s\<lparr>events := events s @ status_notes (parts s) self [k]\<rparr>"
  by (simp add: notifyStatusChanged_def status_notes_Cons push_def split: option.splits)

lemma foldl_notify:
  "foldl (\<lambda>t k. notifyStatusChanged k self t) s ks =
     s\<lparr>events := events s @ status_notes (parts s) self ks\<rparr>"
proof (induction ks arbitrary: s)
  case Nil
  show ?case by simp
next
  case (Cons k ks)
  have "foldl (\<lambda>t k. notifyStatusChanged k self t) s (k # ks) =
          foldl (\<lambda>t k. notifyStatusChanged k self t) (notifyStatusChanged k self s) ks"
    by simp
  also have "\<dots> = (notifyStatusChanged k self s)
          \<lparr>events := events (notifyStatusChanged k self s)
             @ status_notes (parts (notifyStatusChanged k self s)) self ks\<rparr>"
    by (rule Cons.IH)
  also have "\<dots> = s\<lparr>events := events s @ status_notes (parts s) self (k # ks)\<rparr>"
    by (simp add: notifyStatusChanged_eq status_notes_Cons)
  finally show ?case .
qed

lemma changeStatus_eq:
  "changeStatus self st s =
     s\<lparr>parts := (parts s)(self := (parts s self)\<lparr>status := st\<rparr>),
       events := events s
         @ status_notes ((parts s)(self := (parts s self)\<lparr>status := st\<rparr>)) self
             (reverseContacts (parts s self))\<rparr>"
  by (simp add: changeStatus_def Let_def foldl_notify upd_participant_def)

subsection \<open>C4: attaching a client\<close>

text \<open>
  C4. \<open>attached\<close> raises the authorization error "duplicate login not permitted."
  (\<^verbatim>\<open>passport.Unauthorized\<close> in the source) exactly when a client that is not a
  placeholder is already attached, and then changes nothing. Otherwise it stores the
  client, pushes the contact list as (name, status) pairs to it, sets the status to
  \<open>ONLINE\<close>, notifies the reverse contacts that have a client, and returns the
  participant itself.
\<close>

theorem attached_duplicate_login:
  fixes self :: pid and c :: Client and s :: state
  defines "blocked \<equiv> (\<exists>old. client (parts s self) = Some old \<and> \<not> ephemeral old)"
  defines "ps \<equiv> (parts s)(self := (parts s self)\<lparr>client := Some c, status := ONLINE\<rparr>)"
  shows "(blocked \<longrightarrow>
            attached self c s = (s, Inl (Unauthorized ''duplicate login not permitted.'')))
       \<and> (\<not> blocked \<longrightarrow>
            attached self c s =
              (s\<lparr>parts := ps,
                 events := events s
                    @ [(cid c, ReceiveContactList
                                 (map (\<lambda>k. (name (parts s k), status (parts s k)))
                                    (contacts (parts s self))))]
                    @ status_notes ps self (reverseContacts (parts s self))\<rparr>,
               Inr self))"
proof (intro conjI impI)
  assume blocked
  then show "attached self c s = (s, Inl (Unauthorized ''duplicate login not permitted.''))"
    by (auto simp: blocked_def attached_def)
next
  assume nb: "\<not> blocked"
  have guard: "\<not> (case client (parts s self) of None \<Rightarrow> False | Some old \<Rightarrow> \<not> ephemeral old)"
    using nb by (auto simp: blocked_def split: option.splits)
  have names: "map (\<lambda>k. (name (((parts s)(self := (parts s self)\<lparr>client := Some c\<rparr>)) k),
                         status (((parts s)(self := (parts s self)\<lparr>client := Some c\<rparr>)) k)))
                 (contacts (parts s self))
             = map (\<lambda>k. (name (parts s k), status (parts s k))) (contacts (parts s self))"
    by (rule map_cong) auto
  show "attached self c s =
              (s\<lparr>parts := ps,
                 events := events s
                    @ [(cid c, ReceiveContactList
                                 (map (\<lambda>k. (name (parts s k), status (parts s k)))
                                    (contacts (parts s self))))]
                    @ status_notes ps self (reverseContacts (parts s self))\<rparr>,
               Inr self)"
    unfolding attached_def ps_def using guard
    by (simp add: Let_def changeStatus_eq names [simplified] push_def upd_participant_def)
qed

text \<open>
  Alice adds Bob as a contact and attaches: the attach succeeds and her client receives
  \<open>[(bob, OFFLINE)]\<close>; a second attach is refused and changes nothing.
\<close>

theorem attached_duplicate_login_witness:
  "snd (attached 0 (plain_client 5) (run [AddContact ''alice'' ''bob''] two_users)) = Inr 0
 \<and> events (fst (attached 0 (plain_client 5) (run [AddContact ''alice'' ''bob''] two_users)))
     = [(5, ReceiveContactList [(''bob'', OFFLINE)])]
 \<and> attached 0 (plain_client 6)
      (run [AddContact ''alice'' ''bob'', Attach ''alice'' (plain_client 5)] two_users)
     = (run [AddContact ''alice'' ''bob'', Attach ''alice'' (plain_client 5)] two_users,
        Inl (Unauthorized ''duplicate login not permitted.''))"
proof -
  define s where "s = run [AddContact ''alice'' ''bob''] two_users"
  define t where
    "t = run [AddContact ''alice'' ''bob'', Attach ''alice'' (plain_client 5)] two_users"
  have c0: "client (parts s 0) = None"
    unfolding s_def by code_simp
  have c1: "client (parts t 0) = Some (plain_client 5)"
    unfolding t_def by code_simp
  have cs: "contacts (parts s 0) = [Suc 0]" "reverseContacts (parts s 0) = []"
       "name (parts s (Suc 0)) = ''bob''" "status (parts s (Suc 0)) = OFFLINE" "events s = []"
    unfolding s_def by code_simp+
  have a: "attached 0 (plain_client 5) s =
              (s\<lparr>parts := (parts s)(0 := (parts s 0)\<lparr>client := Some (plain_client 5),
                                                     status := ONLINE\<rparr>),
                 events := events s
                    @ [(cid (plain_client 5), ReceiveContactList
                                 (map (\<lambda>k. (name (parts s k), status (parts s k)))
                                    (contacts (parts s 0))))]
                    @ status_notes ((parts s)(0 := (parts s 0)\<lparr>client := Some (plain_client 5),
                                                                 status := ONLINE\<rparr>)) 0
                        (reverseContacts (parts s 0))\<rparr>,
               Inr 0)"
    using attached_duplicate_login [of s 0 "plain_client 5"] by (simp add: c0)
  have b: "attached 0 (plain_client 6) t =
             (t, Inl (Unauthorized ''duplicate login not permitted.''))"
    using attached_duplicate_login [of t 0 "plain_client 6"]
    by (simp add: c1)
  show ?thesis
    unfolding s_def [symmetric] t_def [symmetric]
    by (simp add: a b cs)
qed

subsection \<open>Messages\<close>

lemma args3_length: "length xs \<noteq> 3 \<Longrightarrow> args3 xs = None"
  by (cases xs rule: args3.cases) simp_all

lemma args4_length: "length xs \<noteq> 4 \<Longrightarrow> args4 xs = None"
  by (cases xs rule: args4.cases) simp_all

lemma absorb_simps [simp]:
  "absorb (s, Inl e) = s\<lparr>unhandled := unhandled s @ [e]\<rparr>"
  "absorb (s, Inr u) = s"
  by (simp_all add: absorb_def)

text \<open>
  The retry of a direct message, for every convention of the Deferred: with leading
  arguments the call has too many arguments; with none, its first argument is the
  sender's name, a string, which has no \<^verbatim>\<open>.name\<close>. Either way nothing is pushed.
\<close>

lemma direct_retry:
  assumes "client (parts s self) = Some c" and "reply c = DeferredFails pre" and "truthy md"
  shows "receiveDirectMessage self (VParticipant p) message md s =
           (s\<lparr>events := events s
                 @ [(cid c, ReceiveDirectMessage (name (parts s p)) message (Some md))],
              unhandled := unhandled s @ [if pre = [] then AttributeError else TypeError]\<rparr>,
            Inr ())"
proof (cases pre)
  case Nil
  then show ?thesis using assms
    by (simp add: receiveDirectMessage.simps Let_def push_def)
next
  case (Cons x xs)
  have "args3 (pre @ [VStr (name (parts s p)), message, VNone]) = None"
    by (rule args3_length) (simp add: Cons)
  then show ?thesis using assms Cons
    by (simp add: receiveDirectMessage.simps [of self "VParticipant p"] Let_def push_def)
qed

lemma group_retry_extra_args:
  assumes "client (parts s self) = Some c" and "reply c = DeferredFails pre" and "truthy md"
      and "pre \<noteq> []" and "p \<noteq> self"
  shows "receiveGroupMessage self (VParticipant p) (VGroup g) message md s =
           (s\<lparr>events := events s
                 @ [(cid c, ReceiveGroupMessage (name (parts s p)) (group_name (grps s g))
                              message (Some md))],
              unhandled := unhandled s @ [TypeError]\<rparr>,
            Inr ())"
proof -
  have "args4 (pre @ [VParticipant p, VGroup g, message, VNone]) = None"
    using assms(4) by (intro args4_length) (cases pre, simp_all)
  then show ?thesis using assms
    by (simp add: receiveGroupMessage.simps [of self "VParticipant p"] Let_def push_def)
qed

text \<open>
  Were the errback called with the registered arguments alone, the group retry would
  be the delivery without metadata.
\<close>

lemma group_retry_no_extra_args:
  assumes "client (parts s self) = Some c" and "reply c = DeferredFails []" and "truthy md"
      and "p \<noteq> self"
  shows "receiveGroupMessage self (VParticipant p) (VGroup g) message md s =
           (s\<lparr>events := events s
                 @ [(cid c, ReceiveGroupMessage (name (parts s p)) (group_name (grps s g))
                              message (Some md)),
                    (cid c, ReceiveGroupMessage (name (parts s p)) (group_name (grps s g))
                              message None)]\<rparr>,
            Inr ())"
  using assms by (simp add: receiveGroupMessage.simps Let_def push_def)

subsection \<open>C1: the retry without metadata\<close>

text \<open>
  C1 says that a message with non-empty metadata whose first push fails is followed by
  exactly one more push to the same client, without metadata, with the same sender and
  message. The code does not do this. For a direct message the only push is the first
  one, whatever the Deferred passes to the errback; the retry ends in an exception that
  the Deferred keeps. For a group message the same happens as soon as the Deferred
  passes anything (Twisted's passes the failure).
\<close>

theorem retry_delivers_nothing:
  "client (parts s self) = Some c \<and> reply c = DeferredFails pre \<and> truthy md \<longrightarrow>
     (events (fst (receiveDirectMessage self (VParticipant p) message md s)) =
        events s @ [(cid c, ReceiveDirectMessage (name (parts s p)) message (Some md))]
    \<and> unhandled (fst (receiveDirectMessage self (VParticipant p) message md s)) =
        unhandled s @ [if pre = [] then AttributeError else TypeError])
   \<and> (pre \<noteq> [] \<and> p \<noteq> self \<longrightarrow>
        events (fst (receiveGroupMessage self (VParticipant p) (VGroup g) message md s)) =
          events s @ [(cid c, ReceiveGroupMessage (name (parts s p)) (group_name (grps s g))
                                message (Some md))]
      \<and> unhandled (fst (receiveGroupMessage self (VParticipant p) (VGroup g) message md s)) =
          unhandled s @ [TypeError])"
  by (auto simp: direct_retry group_retry_extra_args)

text \<open>
  Bob's client fails on metadata. Alice sends him "hi" with \<open>{style: emote}\<close>: his
  client is pushed the message with metadata and nothing after it.
\<close>

theorem retry_delivers_nothing_witness:
  "events (fst (receiveDirectMessage (Suc 0) (VParticipant 0) (VStr ''hi'')
                  (VDict [(''style'', ''emote'')])
                  (run [Attach ''bob'' (strict_client 7)] two_users))) =
     [(7, ReceiveContactList []),
      (7, ReceiveDirectMessage ''alice'' (VStr ''hi'') (Some (VDict [(''style'', ''emote'')])))]
 \<and> unhandled (fst (receiveDirectMessage (Suc 0) (VParticipant 0) (VStr ''hi'')
                  (VDict [(''style'', ''emote'')])
                  (run [Attach ''bob'' (strict_client 7)] two_users))) = [TypeError]"
proof -
  define s where "s = run [Attach ''bob'' (strict_client 7)] two_users"
  have c: "client (parts s (Suc 0)) = Some (strict_client 7)"
    unfolding s_def by code_simp
  have f: "events s = [(7, ReceiveContactList [])]" "unhandled s = []"
          "name (parts s 0) = ''alice''"
    unfolding s_def by code_simp+
  have "client (parts s (Suc 0)) = Some (strict_client 7)
      \<and> reply (strict_client 7) = DeferredFails [VFailure]
      \<and> truthy (VDict [(''style'', ''emote'')])"
    by (simp add: c)
  with retry_delivers_nothing [of s "Suc 0" "strict_client 7" "[VFailure]"
         "VDict [(''style'', ''emote'')]" 0 "VStr ''hi''"]
  show ?thesis
    unfolding s_def [symmetric] by (simp add: f)
qed

subsection \<open>C7: no client attached\<close>

text \<open>
  C7. Without an attached client \<open>receiveDirectMessage\<close> raises
  \<open>WrongStatusError (status, name)\<close> and \<open>receiveGroupMessage\<close> does nothing and raises
  nothing; neither changes the state. A group message whose sender is the recipient
  itself delivers nothing either, client or not.
\<close>

theorem no_client_direct_raises_group_silent:
  "(client (parts s self) = None \<longrightarrow>
      receiveDirectMessage self sender message md s =
        (s, Inl (WrongStatusError (status (parts s self)) (name (parts s self))))
    \<and> receiveGroupMessage self sender grp message md s = (s, Inr ()))
 \<and> receiveGroupMessage self (VParticipant self) grp message md s = (s, Inr ())"
  by (simp add: receiveDirectMessage.simps [of self sender]
        receiveGroupMessage.simps [of self sender] receiveGroupMessage.simps [of self "VParticipant self"])

theorem no_client_direct_raises_group_silent_witness:
  "receiveDirectMessage (Suc 0) (VParticipant 0) (VStr ''hi'') VNone two_users =
     (two_users, Inl (WrongStatusError OFFLINE ''bob''))
 \<and> receiveGroupMessage (Suc 0) (VParticipant 0) (VGroup 0) (VStr ''hi'') VNone two_users =
     (two_users, Inr ())"
proof -
  have c: "client (parts two_users (Suc 0)) = None" "status (parts two_users (Suc 0)) = OFFLINE"
          "name (parts two_users (Suc 0)) = ''bob''"
    by code_simp+
  from no_client_direct_raises_group_silent
         [of two_users "Suc 0" "VParticipant 0" "VStr ''hi''" VNone "VGroup 0"] c
  show ?thesis by simp
qed

subsection \<open>Loops over members and groups\<close>

lemma member_notes_Nil [simp]: "member_notes mk s p g [] = []"
  by (simp add: member_notes_def map_filter_simps)

lemma member_notes_Cons:
  "member_notes mk s p g (m # ms) =
     (case client (parts s m) of
        None \<Rightarrow> []
      | Some c \<Rightarrow> [(cid c, mk (name (parts s p)) (group_name (grps s g)))])
     @ member_notes mk s p g ms"
  by (simp add: member_notes_def map_filter_simps split: option.splits)

lemma member_notes_events [simp]:
  "member_notes mk (s\<lparr>events := ev\<rparr>) p g ms = member_notes mk s p g ms"
  by (simp add: member_notes_def)

lemma has_client_events [simp]: "has_client (s\<lparr>events := ev\<rparr>) = has_client s"
  by (simp add: has_client_def fun_eq_iff)

text \<open>
  The loop of \<open>addMember\<close> over the existing members: it pushes to the members in
  front of the first one without a client and stops there with an \<^verbatim>\<open>AttributeError\<close>.
\<close>

lemma for_each_memberJoined:
  "for_each (\<lambda>member. memberJoined member p g) ms s =
     (s\<lparr>events := events s @ member_notes MemberJoined s p g (takeWhile (has_client s) ms)\<rparr>,
      if \<forall>m \<in> set ms. has_client s m then Inr () else Inl AttributeError)"
proof (induction ms arbitrary: s)
  case Nil
  show ?case by simp
next
  case (Cons m ms)
  show ?case
  proof (cases "client (parts s m)")
    case None
    then show ?thesis by (simp add: memberJoined_def has_client_def)
  next
    case (Some c)
    define s1 where
      "s1 = s\<lparr>events := events s
               @ [(cid c, MemberJoined (name (parts s p)) (group_name (grps s g)))]\<rparr>"
    have "for_each (\<lambda>member. memberJoined member p g) (m # ms) s =
            for_each (\<lambda>member. memberJoined member p g) ms s1"
      by (simp add: memberJoined_def Some push_def s1_def)
    also have "\<dots> =
        (s1\<lparr>events := events s1
              @ member_notes MemberJoined s1 p g (takeWhile (has_client s1) ms)\<rparr>,
         if \<forall>m \<in> set ms. has_client s1 m then Inr () else Inl AttributeError)"
      by (rule Cons.IH)
    finally show ?thesis
      by (simp add: s1_def has_client_def [of s m] Some member_notes_Cons)
  qed
qed

lemma for_each_memberLeft:
  "for_each (\<lambda>member. memberLeft member p g) ms s =
     (s\<lparr>events := events s @ member_notes MemberLeft s p g (takeWhile (has_client s) ms)\<rparr>,
      if \<forall>m \<in> set ms. has_client s m then Inr () else Inl AttributeError)"
proof (induction ms arbitrary: s)
  case Nil
  show ?case by simp
next
  case (Cons m ms)
  show ?case
  proof (cases "client (parts s m)")
    case None
    then show ?thesis by (simp add: memberLeft_def has_client_def)
  next
    case (Some c)
    define s1 where
      "s1 = s\<lparr>events := events s
               @ [(cid c, MemberLeft (name (parts s p)) (group_name (grps s g)))]\<rparr>"
    have "for_each (\<lambda>member. memberLeft member p g) (m # ms) s =
            for_each (\<lambda>member. memberLeft member p g) ms s1"
      by (simp add: memberLeft_def Some push_def s1_def)
    also have "\<dots> =
        (s1\<lparr>events := events s1
              @ member_notes MemberLeft s1 p g (takeWhile (has_client s1) ms)\<rparr>,
         if \<forall>m \<in> set ms. has_client s1 m then Inr () else Inl AttributeError)"
      by (rule Cons.IH)
    finally show ?thesis
      by (simp add: s1_def has_client_def [of s m] Some member_notes_Cons)
  qed
qed


lemma member_notes_upd_members [simp]:
  "member_notes mk (s\<lparr>grps := (grps s)(g := (grps s g)\<lparr>members := ms'\<rparr>)\<rparr>) p g' ms =
     member_notes mk s p g' ms"
  by (simp add: member_notes_def)

lemma has_client_grps [simp]: "has_client (s\<lparr>grps := gs\<rparr>) = has_client s"
  by (simp add: has_client_def fun_eq_iff)

lemma setGroupMetadata_eq:
  "setGroupMetadata p d n s =
     s\<lparr>events := events s
          @ (case client (parts s p) of None \<Rightarrow> [] | Some c \<Rightarrow> [(cid c, SetGroupMetadata d n)])\<rparr>"
  by (simp add: setGroupMetadata_def push_def split: option.splits)

lemma addMember_eq:
  "addMember g p s =
     (if p \<in> set (members (grps s g)) then (s, Inr ())
      else if \<forall>m \<in> set (members (grps s g)). has_client s m then
        (s\<lparr>grps := (grps s)(g := (grps s g)\<lparr>members := members (grps s g) @ [p]\<rparr>),
           events := events s
             @ member_notes MemberJoined s p g (members (grps s g))
             @ (case client (parts s p) of
                  None \<Rightarrow> []
                | Some c \<Rightarrow>
                    [(cid c, SetGroupMetadata (metadata (grps s g)) (group_name (grps s g)))])\<rparr>,
         Inr ())
      else
        (s\<lparr>events := events s
             @ member_notes MemberJoined s p g
                 (takeWhile (has_client s) (members (grps s g)))\<rparr>,
         Inl AttributeError))"
proof -
  have tw: "\<forall>m \<in> set (members (grps s g)). has_client s m \<Longrightarrow>
            takeWhile (has_client s) (members (grps s g)) = members (grps s g)"
    by (simp add: takeWhile_eq_all_conv)
  show ?thesis
    by (auto simp: addMember_def for_each_memberJoined setGroupMetadata_eq upd_group_def tw
             split: option.splits)
qed

lemma removeMember_eq:
  "removeMember g p s =
     (if p \<in> set (members (grps s g)) then
        (s\<lparr>grps := (grps s)(g := (grps s g)\<lparr>members := remove1 p (members (grps s g))\<rparr>),
           events := events s
             @ member_notes MemberLeft s p g
                 (takeWhile (has_client s) (remove1 p (members (grps s g))))\<rparr>,
         if \<forall>m \<in> set (remove1 p (members (grps s g))). has_client s m then Inr ()
         else Inl AttributeError)
      else (s, Inl (NotInGroupError (group_name (grps s g)) (Some (name (parts s p))))))"
  by (simp add: removeMember_def for_each_memberLeft upd_group_def Let_def)

subsection \<open>C10: membership notices and missing clients\<close>

text \<open>
  C10. \<open>memberJoined\<close> and \<open>memberLeft\<close> use the notified member's client without
  testing it. So \<open>addMember\<close> of a new participant completes without error exactly when
  every existing member has a client, and \<open>removeMember\<close> of a member exactly when every
  remaining member has one. Otherwise the call raises \<^verbatim>\<open>AttributeError\<close> partway: the
  members in front of the first one without a client have been notified, the joining
  participant has not been added (the leaving one has already been removed). The
  guarded paths \<open>notifyStatusChanged\<close>, \<open>setGroupMetadata\<close> and \<open>receiveGroupMessage\<close>
  do nothing for a participant without a client.
\<close>

theorem member_notices_need_clients:
  "(p \<notin> set (members (grps s g)) \<longrightarrow>
      (snd (addMember g p s) = Inr ()) = (\<forall>m \<in> set (members (grps s g)). has_client s m)
    \<and> ((\<exists>m \<in> set (members (grps s g)). \<not> has_client s m) \<longrightarrow>
         addMember g p s =
           (s\<lparr>events := events s
                @ member_notes MemberJoined s p g
                    (takeWhile (has_client s) (members (grps s g)))\<rparr>,
            Inl AttributeError)))
 \<and> (p \<in> set (members (grps s g)) \<longrightarrow>
      (snd (removeMember g p s) = Inr ()) =
         (\<forall>m \<in> set (remove1 p (members (grps s g))). has_client s m)
    \<and> ((\<exists>m \<in> set (remove1 p (members (grps s g))). \<not> has_client s m) \<longrightarrow>
         removeMember g p s =
           (s\<lparr>grps := (grps s)(g := (grps s g)\<lparr>members := remove1 p (members (grps s g))\<rparr>),
              events := events s
                @ member_notes MemberLeft s p g
                    (takeWhile (has_client s) (remove1 p (members (grps s g))))\<rparr>,
            Inl AttributeError)))
 \<and> (\<not> has_client s q \<longrightarrow>
      notifyStatusChanged q k s = s
    \<and> setGroupMetadata q d n s = s
    \<and> receiveGroupMessage q sender grp message md s = (s, Inr ()))"
proof (intro conjI impI)
  assume "\<not> has_client s q"
  then have c: "client (parts s q) = None"
    by (simp add: has_client_def)
  show "notifyStatusChanged q k s = s"
    by (simp add: notifyStatusChanged_def c)
  show "setGroupMetadata q d n s = s"
    by (simp add: setGroupMetadata_def c)
  show "receiveGroupMessage q sender grp message md s = (s, Inr ())"
    by (simp add: receiveGroupMessage.simps [of q sender] c)
qed (auto simp: addMember_eq removeMember_eq)

text \<open>
  Alice, who never attached, is in the lobby. Bob cannot be added: the notice to Alice
  raises and nothing has changed. With Bob (attached) and Alice in the lobby, removing
  Bob raises after he has been removed.
\<close>

theorem member_notices_need_clients_witness:
  "addMember 0 (Suc 0) (run [JoinGroup ''alice'' ''lobby''] two_users) =
     (run [JoinGroup ''alice'' ''lobby''] two_users, Inl AttributeError)
 \<and> snd (removeMember 0 (Suc 0)
      (run [Attach ''bob'' (plain_client 7), JoinGroup ''bob'' ''lobby'',
            JoinGroup ''alice'' ''lobby''] two_users)) = Inl AttributeError
 \<and> members (grps (fst (removeMember 0 (Suc 0)
      (run [Attach ''bob'' (plain_client 7), JoinGroup ''bob'' ''lobby'',
            JoinGroup ''alice'' ''lobby''] two_users))) 0) = [0]"
proof -
  define s where "s = run [JoinGroup ''alice'' ''lobby''] two_users"
  define t where "t = run [Attach ''bob'' (plain_client 7), JoinGroup ''bob'' ''lobby'',
            JoinGroup ''alice'' ''lobby''] two_users"
  have ms: "members (grps s 0) = [0]" "client (parts s 0) = None"
    unfolding s_def by code_simp+
  have mt: "members (grps t 0) = [Suc 0, 0]" "client (parts t 0) = None"
    unfolding t_def by code_simp+
  have a: "addMember 0 (Suc 0) s = (s, Inl AttributeError)"
    using member_notices_need_clients [of "Suc 0" s 0]
    by (simp add: ms has_client_def)
  have b: "removeMember 0 (Suc 0) t =
             (t\<lparr>grps := (grps t)(0 := (grps t 0)\<lparr>members := [0]\<rparr>)\<rparr>, Inl AttributeError)"
    using member_notices_need_clients [of "Suc 0" t 0]
    by (simp add: mt has_client_def)
  show ?thesis
    unfolding s_def [symmetric] t_def [symmetric] by (simp add: a b)
qed


subsection \<open>C6: the members of a group\<close>

lemma getGroupMembers_loop_client:
  "client (parts s self) = Some c \<Longrightarrow>
   for_each
     (\<lambda>g t. if group_name (grps t g) = n then
              (case client (parts t self) of
                 None \<Rightarrow> (t, Inl AttributeError)
               | Some c \<Rightarrow>
                   (push c (ReceiveGroupMembers
                              (map (\<lambda>m. name (parts t m)) (members (grps t g)))
                              (group_name (grps t g))) t, Inr ()))
            else (t, Inr ()))
     gs s =
   (s\<lparr>events := events s
        @ map (\<lambda>g. (cid c, ReceiveGroupMembers
                              (map (\<lambda>m. name (parts s m)) (members (grps s g)))
                              (group_name (grps s g))))
            (filter (\<lambda>g. group_name (grps s g) = n) gs)\<rparr>,
    Inr ())"
proof (induction gs arbitrary: s)
  case Nil
  show ?case by simp
next
  case (Cons g gs)
  show ?case
  proof (cases "group_name (grps s g) = n")
    case False
    then show ?thesis using Cons by simp
  next
    case True
    define s1 where
      "s1 = push c (ReceiveGroupMembers (map (\<lambda>m. name (parts s m)) (members (grps s g)))
                      (group_name (grps s g))) s"
    have c1: "client (parts s1 self) = Some c"
      using Cons.prems by (simp add: s1_def)
    show ?thesis
      using True Cons.prems Cons.IH [OF c1]
      by (simp add: s1_def [symmetric]) (simp add: s1_def push_def)
  qed
qed

lemma getGroupMembers_loop_no_client:
  "client (parts s self) = None \<Longrightarrow>
   for_each
     (\<lambda>g t. if group_name (grps t g) = n then
              (case client (parts t self) of
                 None \<Rightarrow> (t, Inl AttributeError)
               | Some c \<Rightarrow>
                   (push c (ReceiveGroupMembers
                              (map (\<lambda>m. name (parts t m)) (members (grps t g)))
                              (group_name (grps t g))) t, Inr ()))
            else (t, Inr ()))
     gs s =
   (s, if \<exists>g \<in> set gs. group_name (grps s g) = n then Inl AttributeError else Inr ())"
  by (induction gs) auto

lemma getGroupMembers_eq:
  "getGroupMembers self n s =
     (case client (parts s self) of
        Some c \<Rightarrow>
          (s\<lparr>events := events s
               @ map (\<lambda>g. (cid c, ReceiveGroupMembers
                                     (map (\<lambda>m. name (parts s m)) (members (grps s g)))
                                     (group_name (grps s g))))
                   (filter (\<lambda>g. group_name (grps s g) = n) (groups (parts s self)))\<rparr>,
           Inl (NotInGroupError n None))
      | None \<Rightarrow>
          (s, if \<exists>g \<in> set (groups (parts s self)). group_name (grps s g) = n
              then Inl AttributeError else Inl (NotInGroupError n None)))"
  by (simp add: getGroupMembers_def getGroupMembers_loop_client
        getGroupMembers_loop_no_client split: option.splits)

text \<open>
  C6 as stated (\<open>NotInGroupError\<close> on every call, for every participant) fails for a
  participant that is in the group and has no client: the push itself raises
  \<^verbatim>\<open>AttributeError\<close>. Alice joins the lobby without ever attaching and asks for its
  members.
\<close>

theorem getGroupMembers_without_client_counterexample:
  "snd (getGroupMembers 0 ''lobby'' (run [JoinGroup ''alice'' ''lobby''] two_users))
     = Inl AttributeError
 \<and> snd (getGroupMembers 0 ''lobby'' (run [JoinGroup ''alice'' ''lobby''] two_users))
     \<noteq> Inl (NotInGroupError ''lobby'' None)"
  by code_simp

text \<open>
  C6, amended. For a participant with an attached client, \<open>getGroupMembers\<close> raises
  \<open>NotInGroupError groupName\<close> on every call, after having pushed the list of member
  names to the client once for each of the participant's groups of that name. For any
  participant that is in no group of that name, it raises \<open>NotInGroupError groupName\<close>
  and pushes nothing.
\<close>

theorem getGroupMembers_always_raises:
  "(client (parts s self) = Some c \<longrightarrow>
      getGroupMembers self n s =
        (s\<lparr>events := events s
             @ map (\<lambda>g. (cid c, ReceiveGroupMembers
                                   (map (\<lambda>m. name (parts s m)) (members (grps s g)))
                                   (group_name (grps s g))))
                 (filter (\<lambda>g. group_name (grps s g) = n) (groups (parts s self)))\<rparr>,
         Inl (NotInGroupError n None)))
 \<and> ((\<forall>g \<in> set (groups (parts s self)). group_name (grps s g) \<noteq> n) \<longrightarrow>
      getGroupMembers self n s = (s, Inl (NotInGroupError n None)))"
  by (auto simp: getGroupMembers_eq filter_empty_conv split: option.splits)

text \<open>
  Bob, attached, is in the lobby with Alice: asking for the lobby pushes both names and
  raises; asking for a group he is not in raises and pushes nothing.
\<close>

theorem getGroupMembers_always_raises_witness:
  "snd (getGroupMembers (Suc 0) ''lobby''
          (run [Attach ''bob'' (plain_client 7), JoinGroup ''bob'' ''lobby'',
                JoinGroup ''alice'' ''lobby''] two_users))
     = Inl (NotInGroupError ''lobby'' None)
 \<and> events (fst (getGroupMembers (Suc 0) ''lobby''
          (run [Attach ''bob'' (plain_client 7), JoinGroup ''bob'' ''lobby'',
                JoinGroup ''alice'' ''lobby''] two_users)))
     = events (run [Attach ''bob'' (plain_client 7), JoinGroup ''bob'' ''lobby'',
                JoinGroup ''alice'' ''lobby''] two_users)
       @ [(7, ReceiveGroupMembers [''bob'', ''alice''] ''lobby'')]
 \<and> getGroupMembers (Suc 0) ''cellar''
          (run [Attach ''bob'' (plain_client 7), JoinGroup ''bob'' ''lobby'',
                JoinGroup ''alice'' ''lobby''] two_users)
     = (run [Attach ''bob'' (plain_client 7), JoinGroup ''bob'' ''lobby'',
                JoinGroup ''alice'' ''lobby''] two_users,
        Inl (NotInGroupError ''cellar'' None))"
proof -
  define t where "t = run [Attach ''bob'' (plain_client 7), JoinGroup ''bob'' ''lobby'',
            JoinGroup ''alice'' ''lobby''] two_users"
  have f: "client (parts t (Suc 0)) = Some (plain_client 7)"
          "groups (parts t (Suc 0)) = [0]" "group_name (grps t 0) = ''lobby''"
          "members (grps t 0) = [Suc 0, 0]"
          "name (parts t 0) = ''alice''" "name (parts t (Suc 0)) = ''bob''"
    unfolding t_def by code_simp+
  show ?thesis
    unfolding t_def [symmetric]
    using getGroupMembers_always_raises [of t "Suc 0" "plain_client 7" "''lobby''"]
          getGroupMembers_always_raises [of t "Suc 0" "plain_client 7" "''cellar''"]
    by (simp add: f)
qed

subsection \<open>Calls that change the logs only\<close>

lemma same_heap_refl [simp]: "same_heap s s"
  by (simp add: same_heap_def)

lemma same_heap_trans: "same_heap s t \<Longrightarrow> same_heap t u \<Longrightarrow> same_heap s u"
  by (simp add: same_heap_def)

lemma same_heap_logs [simp]:
  "same_heap s (t\<lparr>events := ev\<rparr>) = same_heap s t"
  "same_heap s (t\<lparr>unhandled := un\<rparr>) = same_heap s t"
  "same_heap s (push c e t) = same_heap s t"
  by (simp_all add: same_heap_def)

lemma same_heap_absorb: "same_heap s (fst r) \<Longrightarrow> same_heap s (absorb r)"
  by (cases r) (auto simp: absorb_def split: sum.splits)

lemma for_each_same_heap:
  "(\<And>x t. same_heap t (fst (f x t))) \<Longrightarrow> same_heap s (fst (for_each f xs s))"
proof (induction xs arbitrary: s)
  case Nil
  show ?case by simp
next
  case (Cons x xs)
  have h: "same_heap s (fst (f x s))" by (rule Cons.prems)
  show ?case
  proof (cases "f x s")
    case (Pair s' r)
    with h have h': "same_heap s s'" by simp
    show ?thesis
    proof (cases r)
      case (Inl e)
      with Pair h' show ?thesis by simp
    next
      case (Inr u)
      have "same_heap s' (fst (for_each f xs s'))"
        by (rule Cons.IH) (rule Cons.prems)
      with h' have "same_heap s (fst (for_each f xs s'))"
        by (rule same_heap_trans)
      with Pair Inr show ?thesis by simp
    qed
  qed
qed

lemma args3_last: "args3 (pre @ [x, y, z]) = Some (a, b, c) \<Longrightarrow> c = z"
  by (auto elim!: args3.elims simp: append_eq_Cons_conv)

lemma args4_last: "args4 (pre @ [w, x, y, z]) = Some (a, b, c, d) \<Longrightarrow> d = z"
  by (auto elim!: args4.elims simp: append_eq_Cons_conv)

lemma receiveDirectMessage_plain_same_heap:
  "\<not> truthy md \<Longrightarrow> same_heap s (fst (receiveDirectMessage self sender message md s))"
  by (simp add: receiveDirectMessage.simps [of self sender message md s]
           split: option.splits sum.splits)

lemma receiveDirectMessage_same_heap:
  "same_heap s (fst (receiveDirectMessage self sender message md s))"
proof (cases "truthy md")
  case False
  then show ?thesis by (rule receiveDirectMessage_plain_same_heap)
next
  case True
  have retry: "same_heap s (absorb (receiveDirectMessage self a1 a2 a3 t))"
    if "args3 (pre @ [x, y, VNone]) = Some (a1, a2, a3)" and "same_heap s t"
    for pre x y a1 a2 a3 t
  proof -
    have "a3 = VNone" using that(1) by (rule args3_last)
    then have "same_heap t (fst (receiveDirectMessage self a1 a2 a3 t))"
      by (simp add: receiveDirectMessage_plain_same_heap)
    with that(2) show ?thesis
      by (intro same_heap_absorb) (rule same_heap_trans)
  qed
  show ?thesis
    using True
    by (auto simp: receiveDirectMessage.simps [of self sender message md s] Let_def
             intro: retry split: option.splits sum.splits reply.splits)
qed

lemma receiveGroupMessage_plain_same_heap:
  "\<not> truthy md \<Longrightarrow> same_heap s (fst (receiveGroupMessage self sender grp message md s))"
  by (simp add: receiveGroupMessage.simps [of self sender grp message md s]
           split: option.splits sum.splits)

lemma receiveGroupMessage_same_heap:
  "same_heap s (fst (receiveGroupMessage self sender grp message md s))"
proof (cases "truthy md")
  case False
  then show ?thesis by (rule receiveGroupMessage_plain_same_heap)
next
  case True
  have retry: "same_heap s (absorb (receiveGroupMessage self a1 a2 a3 a4 t))"
    if "args4 (pre @ [w, x, y, VNone]) = Some (a1, a2, a3, a4)" and "same_heap s t"
    for pre w x y a1 a2 a3 a4 t
  proof -
    have "a4 = VNone" using that(1) by (rule args4_last)
    then have "same_heap t (fst (receiveGroupMessage self a1 a2 a3 a4 t))"
      by (simp add: receiveGroupMessage_plain_same_heap)
    with that(2) show ?thesis
      by (intro same_heap_absorb) (rule same_heap_trans)
  qed
  show ?thesis
    using True
    by (auto simp: receiveGroupMessage.simps [of self sender grp message md s] Let_def
             intro: retry split: option.splits sum.splits reply.splits)
qed

lemma sendMessage_same_heap: "same_heap s (fst (sendMessage g sender message md s))"
  unfolding sendMessage_def
  by (rule for_each_same_heap) (rule receiveGroupMessage_same_heap)

lemma directMessage_same_heap: "same_heap s (fst (directMessage self n message md s))"
  by (simp add: directMessage_def receiveDirectMessage_same_heap split: sum.splits)

lemma groupMessage_same_heap: "same_heap s (fst (groupMessage self n message md s))"
  by (simp add: groupMessage_def sendMessage_same_heap split: option.splits)

lemma getGroupMembers_same_heap: "same_heap s (fst (getGroupMembers self n s))"
  by (simp add: getGroupMembers_eq split: option.splits)

lemma same_heap_links: "same_heap s t \<Longrightarrow> same_links s t"
  by (simp add: same_heap_def same_links_def)

lemma same_links_consistent: "same_links s t \<Longrightarrow> consistent s \<Longrightarrow> consistent t"
  by (simp add: same_links_def consistent_def)

lemma changeStatus_same_links: "same_links s (changeStatus self st s)"
  by (simp add: changeStatus_eq same_links_def)


lemma attached_same_links: "same_links s (fst (attached self c s))"
  by (simp add: attached_def changeStatus_eq same_links_def Let_def push_def)

subsection \<open>Consistency is kept by every call\<close>

lemma count_list_remove1:
  "count_list (remove1 x xs) y =
     (if x = y \<and> x \<in> set xs then count_list xs y - 1 else count_list xs y)"
  by (induction xs) auto

lemma in_set_count_list: "x \<in> set xs \<longleftrightarrow> 0 < count_list xs x"
  using count_list_0_iff [of xs x] by auto

lemma find_SomeD: "find P xs = Some x \<Longrightarrow> x \<in> set xs \<and> P x"
  by (auto simp: find_Some_iff)

lemma consistentD:
  assumes "consistent s"
  shows "count_list (contacts (parts s a)) b = count_list (reverseContacts (parts s b)) a"
    and "count_list (groups (parts s p)) g = count_list (members (grps s g)) p"
    and "next_pid s \<le> p \<Longrightarrow> contacts (parts s p) = []"
    and "next_pid s \<le> p \<Longrightarrow> reverseContacts (parts s p) = []"
    and "next_pid s \<le> p \<Longrightarrow> groups (parts s p) = []"
    and "next_gid s \<le> g \<Longrightarrow> members (grps s g) = []"
    and "participants s n = Some p \<Longrightarrow> p < next_pid s"
    and "service_groups s n = Some g \<Longrightarrow> g < next_gid s"
  using assms unfolding consistent_def by blast+

lemma consistentI:
  assumes "\<And>a b. count_list (contacts (parts s a)) b = count_list (reverseContacts (parts s b)) a"
    and "\<And>p g. count_list (groups (parts s p)) g = count_list (members (grps s g)) p"
    and "\<And>p. next_pid s \<le> p \<Longrightarrow>
           contacts (parts s p) = [] \<and> reverseContacts (parts s p) = []
         \<and> groups (parts s p) = []"
    and "\<And>g. next_gid s \<le> g \<Longrightarrow> members (grps s g) = []"
    and "\<And>n p. participants s n = Some p \<Longrightarrow> p < next_pid s"
    and "\<And>n g. service_groups s n = Some g \<Longrightarrow> g < next_gid s"
  shows "consistent s"
  using assms unfolding consistent_def by blast

lemma empty_service_consistent: "consistent empty_service"
  by (simp add: consistent_def empty_service_def new_Participant_def new_Group_def)

lemma createParticipant_consistent:
  assumes "consistent s"
  shows "consistent (fst (createParticipant n s))"
proof (cases "participants s n")
  case (Some p)
  then show ?thesis using assms by (simp add: createParticipant_def)
next
  case None
  note d = consistentD [OF assms]
  have fr: "contacts (parts s (next_pid s)) = []"
           "reverseContacts (parts s (next_pid s)) = []"
           "groups (parts s (next_pid s)) = []"
    by (simp_all add: d)
  have z1: "count_list (contacts (parts s a)) (next_pid s) = 0" for a
    by (simp add: d(1) fr)
  have z2: "count_list (reverseContacts (parts s b)) (next_pid s) = 0" for b
    by (simp add: d(1) [symmetric] fr)
  have z3: "count_list (members (grps s g)) (next_pid s) = 0" for g
    by (simp add: d(2) [symmetric] fr)
  have eq: "fst (createParticipant n s) =
          s\<lparr>parts := (parts s)(next_pid s := new_Participant n), next_pid := Suc (next_pid s),
            participants := (participants s)(n \<mapsto> next_pid s)\<rparr>"
    by (simp add: createParticipant_def None Let_def)
  show ?thesis
    unfolding eq
  proof (rule consistentI, goal_cases)
    case (1 a b)
    show ?case by (simp add: new_Participant_def z1 z2 fr) (simp add: d(1))
  next
    case (2 p g)
    show ?case by (simp add: new_Participant_def z3 fr d(2))
  next
    case (3 p)
    then show ?case by (simp add: d)
  next
    case (4 g)
    then show ?case by (simp add: d)
  next
    case (5 m p)
    then show ?case using d(7) [of m p] by (auto simp: less_Suc_eq split: if_splits)
  next
    case (6 m g)
    then show ?case by (simp add: d)
  qed
qed

lemma getGroup_consistent:
  assumes "consistent s"
  shows "consistent (fst (getGroup n s))"
proof (cases "service_groups s n")
  case (Some g)
  then show ?thesis using assms by (simp add: getGroup_def)
next
  case None
  note d = consistentD [OF assms]
  have fr: "members (grps s (next_gid s)) = []"
    by (simp add: d)
  have z: "count_list (groups (parts s p)) (next_gid s) = 0" for p
    by (simp add: d(2) fr)
  have eq: "fst (getGroup n s) =
          s\<lparr>grps := (grps s)(next_gid s := new_Group n), next_gid := Suc (next_gid s),
            service_groups := (service_groups s)(n \<mapsto> next_gid s)\<rparr>"
    by (simp add: getGroup_def None Let_def)
  show ?thesis
    unfolding eq
  proof (rule consistentI, goal_cases)
    case (1 a b)
    show ?case by (simp add: d(1))
  next
    case (2 p g)
    show ?case by (simp add: new_Group_def fr d(2))
  next
    case (3 p)
    then show ?case by (simp add: d)
  next
    case (4 g)
    then show ?case by (simp add: d new_Group_def)
  next
    case (5 m p)
    then show ?case by (simp add: d)
  next
    case (6 m g)
    then show ?case using d(8) [of m g] by (auto simp: less_Suc_eq split: if_splits)
  qed
qed


lemma addContact_consistent:
  assumes "consistent s" and "self < next_pid s"
  shows "consistent (fst (addContact self n s))"
proof (cases "participants s n")
  case None
  then show ?thesis using assms by (simp add: addContact_def getPerspectiveNamed_def)
next
  case (Some contact)
  note d = consistentD [OF assms(1)]
  have c: "contact < next_pid s" using Some by (rule d(7))
  define ps where
    "ps = (parts s)(self := (parts s self)\<lparr>contacts := contacts (parts s self) @ [contact]\<rparr>)"
  define ps' where
    "ps' = ps(contact := (ps contact)\<lparr>reverseContacts := reverseContacts (ps contact) @ [self]\<rparr>)"
  have eq: "same_links (s\<lparr>parts := ps'\<rparr>) (fst (addContact self n s))"
    by (simp add: addContact_def getPerspectiveNamed_def Some Let_def notifyStatusChanged_eq
          same_links_def ps'_def ps_def upd_participant_def)
  have "consistent (s\<lparr>parts := ps'\<rparr>)"
  proof (rule consistentI, goal_cases)
    case (1 a b)
    show ?case by (simp add: ps'_def ps_def d(1))
  next
    case (2 p g)
    show ?case by (simp add: ps'_def ps_def d(2))
  next
    case (3 p)
    then show ?case using c assms(2) by (simp add: ps'_def ps_def d)
  next
    case (4 g)
    then show ?case by (simp add: d)
  next
    case (5 m p)
    then show ?case by (simp add: d)
  next
    case (6 m g)
    then show ?case by (simp add: d)
  qed
  with eq show ?thesis by (rule same_links_consistent)
qed

lemma removeContact_consistent:
  assumes "consistent s"
  shows "consistent (fst (removeContact self n s))"
proof (cases "find (\<lambda>c. name (parts s c) = n) (contacts (parts s self))")
  case None
  then show ?thesis using assms by (simp add: removeContact_def)
next
  case (Some contact)
  note d = consistentD [OF assms(1)]
  have in1: "contact \<in> set (contacts (parts s self))"
    using find_SomeD [OF Some] by simp
  then have in2: "self \<in> set (reverseContacts (parts s contact))"
    by (simp add: in_set_count_list d(1))
  define ps where
    "ps = (parts s)(self := (parts s self)\<lparr>contacts := remove1 contact (contacts (parts s self))\<rparr>)"
  define ps' where
    "ps' = ps(contact := (ps contact)\<lparr>reverseContacts := remove1 self (reverseContacts (ps contact))\<rparr>)"
  have in3: "self \<in> set (reverseContacts (ps contact))"
    using in2 by (auto simp: ps_def)
  have eq: "fst (removeContact self n s) = s\<lparr>parts := ps'\<rparr>"
    using in3
    by (simp add: removeContact_def Some Let_def ps'_def ps_def [symmetric]
          upd_participant_def)
  show ?thesis
    unfolding eq
  proof (rule consistentI, goal_cases)
    case (1 a b)
    show ?case using in1 in2 by (simp add: ps'_def ps_def count_list_remove1 d(1))
  next
    case (2 p g)
    show ?case by (simp add: ps'_def ps_def d(2))
  next
    case (3 p)
    then show ?case by (simp add: ps'_def ps_def d)
  next
    case (4 g)
    then show ?case by (simp add: d)
  next
    case (5 m p)
    then show ?case by (simp add: d)
  next
    case (6 m g)
    then show ?case by (simp add: d)
  qed
qed


lemma getGroup_registered:
  "service_groups (fst (getGroup n s)) n = Some (snd (getGroup n s))"
  by (simp add: getGroup_def Let_def split: option.splits)

lemma getGroup_next_pid [simp]: "next_pid (fst (getGroup n s)) = next_pid s"
  by (simp add: getGroup_def Let_def split: option.splits)

lemma joinGroup_consistent:
  assumes "consistent s" and "self < next_pid s"
  shows "consistent (fst (joinGroup self n s))"
proof -
  obtain s0 g where gg: "getGroup n s = (s0, g)"
    by (cases "getGroup n s")
  have c0: "consistent s0"
    using getGroup_consistent [OF assms(1), of n] by (simp add: gg)
  note d = consistentD [OF c0]
  have g: "g < next_gid s0"
    using getGroup_registered [of n s] by (simp add: gg d(8))
  have self: "self < next_pid s0"
    using getGroup_next_pid [of n s] assms(2) by (simp add: gg)
  show ?thesis
  proof (cases "g \<in> set (groups (parts s0 self))")
    case True
    then show ?thesis using c0 by (simp add: joinGroup_def gg)
  next
    case False
    then have nm: "self \<notin> set (members (grps s0 g))"
      by (simp add: in_set_count_list d(2))
    show ?thesis
    proof (cases "\<forall>m \<in> set (members (grps s0 g)). has_client s0 m")
      case False
      then have "same_heap s0 (fst (joinGroup self n s))"
        using nm \<open>g \<notin> set (groups (parts s0 self))\<close>
        by (simp add: joinGroup_def gg addMember_eq del: ball_simps)
      then have "same_links s0 (fst (joinGroup self n s))"
        by (rule same_heap_links)
      then show ?thesis
        using c0 by (rule same_links_consistent)
    next
      case True
      define u where
        "u = s0\<lparr>parts := (parts s0)(self := (parts s0 self)
                          \<lparr>groups := groups (parts s0 self) @ [g]\<rparr>),
                grps := (grps s0)(g := (grps s0 g)\<lparr>members := members (grps s0 g) @ [self]\<rparr>)\<rparr>"
      have eq: "same_links u (fst (joinGroup self n s))"
        using nm True \<open>g \<notin> set (groups (parts s0 self))\<close>
        by (simp add: joinGroup_def gg addMember_eq same_links_def u_def upd_participant_def)
      have "consistent u"
        unfolding u_def
      proof (rule consistentI, goal_cases)
        case (1 a b)
        show ?case by (simp add: d(1))
      next
        case (2 p g')
        show ?case by (simp add: d(2))
      next
        case (3 p)
        then show ?case using self by (simp add: d)
      next
        case (4 g')
        then show ?case using g by (simp add: d)
      next
        case (5 m p)
        then show ?case by (simp add: d)
      next
        case (6 m g')
        then show ?case by (simp add: d)
      qed
      with eq show ?thesis by (rule same_links_consistent)
    qed
  qed
qed

lemma leaveGroup_consistent:
  assumes "consistent s"
  shows "consistent (fst (leaveGroup self n s))"
proof (cases "find (\<lambda>g. group_name (grps s g) = n) (groups (parts s self))")
  case None
  then show ?thesis using assms by (simp add: leaveGroup_def)
next
  case (Some g)
  note d = consistentD [OF assms]
  have in1: "g \<in> set (groups (parts s self))"
    using find_SomeD [OF Some] by simp
  then have in2: "self \<in> set (members (grps s g))"
    by (simp add: in_set_count_list d(2))
  define u where
    "u = s\<lparr>parts := (parts s)(self := (parts s self)
                      \<lparr>groups := remove1 g (groups (parts s self))\<rparr>),
           grps := (grps s)(g := (grps s g)\<lparr>members := remove1 self (members (grps s g))\<rparr>)\<rparr>"
  have eq: "same_links u (fst (leaveGroup self n s))"
    using in2
    by (simp add: leaveGroup_def Some removeMember_eq same_links_def u_def upd_participant_def)
  have "consistent u"
    unfolding u_def
  proof (rule consistentI, goal_cases)
    case (1 a b)
    show ?case by (simp add: d(1))
  next
    case (2 p g')
    show ?case using in1 in2 by (simp add: count_list_remove1 d(2))
  next
    case (3 p)
    then show ?case by (simp add: d)
  next
    case (4 g')
    then show ?case by (simp add: d)
  next
    case (5 m p)
    then show ?case by (simp add: d)
  next
    case (6 m g')
    then show ?case by (simp add: d)
  qed
  with eq show ?thesis by (rule same_links_consistent)
qed

lemma leave_all_consistent:
  "consistent s \<Longrightarrow> consistent (fst (leave_all self gs s))"
proof (induction gs arbitrary: s)
  case Nil
  then show ?case by simp
next
  case (Cons g gs)
  obtain s' r where l: "leaveGroup self (group_name (grps s g)) s = (s', r)"
    by (cases "leaveGroup self (group_name (grps s g)) s")
  have c': "consistent s'"
    using leaveGroup_consistent [OF Cons.prems, of self "group_name (grps s g)"]
    by (simp add: l)
  have rec: "consistent (fst (leave_all self gs s'))"
    using c' by (rule Cons.IH)
  show ?case
    using c' rec by (simp add: l split: sum.splits error.splits)
qed

lemma detached_consistent:
  assumes "consistent s"
  shows "consistent (fst (detached self s))"
proof -
  define s1 where "s1 = upd_participant self (\<lambda>p. p\<lparr>client := None\<rparr>) s"
  have "same_links s s1"
    by (simp add: s1_def same_links_def)
  then have c1: "consistent s1"
    using assms by (rule same_links_consistent)
  have c2: "consistent (fst (leave_all self (groups (parts s1 self)) s1))"
    using c1 by (rule leave_all_consistent)
  obtain s2 r where l: "leave_all self (groups (parts s1 self)) s1 = (s2, r)"
    by (cases "leave_all self (groups (parts s1 self)) s1")
  have "consistent s2"
    using c2 by (simp add: l)
  then have c3: "consistent (changeStatus self OFFLINE s2)"
    by (rule same_links_consistent [OF changeStatus_same_links])
  show ?thesis
    using c2 c3 by (simp add: detached_def s1_def [symmetric] l Let_def split: sum.splits)
qed

lemma perform_consistent:
  assumes "consistent s"
  shows "consistent (perform c s)"
proof -
  have reg: "participants s who = Some p \<Longrightarrow> p < next_pid s" for who p
    using consistentD(7) [OF assms] .
  have lk: "same_links s t \<Longrightarrow> consistent t" for t
    using assms by (rule same_links_consistent [rotated])
  show ?thesis
  proof (cases c)
    case (CreateParticipant n)
    then show ?thesis using assms by (simp add: createParticipant_consistent)
  next
    case (GetGroup n)
    then show ?thesis using assms by (simp add: getGroup_consistent)
  next
    case (Attach who cl)
    then show ?thesis using assms
      by (simp add: on_participant_def getPerspectiveNamed_def lk attached_same_links
            split: option.splits)
  next
    case (Detach who)
    then show ?thesis using assms
      by (simp add: on_participant_def getPerspectiveNamed_def detached_consistent
            split: option.splits)
  next
    case (ChangeStatus who st)
    then show ?thesis using assms
      by (simp add: on_participant_def getPerspectiveNamed_def lk changeStatus_same_links
            split: option.splits)
  next
    case (AddContact who n)
    then show ?thesis using assms
      by (simp add: on_participant_def getPerspectiveNamed_def addContact_consistent reg
            split: option.splits)
  next
    case (RemoveContact who n)
    then show ?thesis using assms
      by (simp add: on_participant_def getPerspectiveNamed_def removeContact_consistent
            split: option.splits)
  next
    case (JoinGroup who n)
    then show ?thesis using assms
      by (simp add: on_participant_def getPerspectiveNamed_def joinGroup_consistent reg
            split: option.splits)
  next
    case (LeaveGroup who n)
    then show ?thesis using assms
      by (simp add: on_participant_def getPerspectiveNamed_def leaveGroup_consistent
            split: option.splits)
  next
    case (GetGroupMembers who n)
    then show ?thesis using assms
      by (simp add: on_participant_def getPerspectiveNamed_def lk same_heap_links
            getGroupMembers_same_heap split: option.splits)
  next
    case (DirectMessage who n m md)
    then show ?thesis using assms
      by (simp add: on_participant_def getPerspectiveNamed_def lk same_heap_links
            directMessage_same_heap split: option.splits)
  next
    case (GroupMessage who n m md)
    then show ?thesis using assms
      by (simp add: on_participant_def getPerspectiveNamed_def lk same_heap_links
            groupMessage_same_heap split: option.splits)
  qed
qed

lemma run_consistent: "consistent s \<Longrightarrow> consistent (run cs s)"
  by (induction cs arbitrary: s) (simp_all add: perform_consistent)

subsection \<open>C2: contacts and reverse contacts\<close>

text \<open>
  C2. In every state reached from the empty service by any sequence of calls
  (creating participants, adding and removing contacts, and all the others), \<open>B\<close> is
  in \<open>A\<close>'s contacts if and only if \<open>A\<close> is in \<open>B\<close>'s reverse contacts, for all
  participants \<open>A\<close> and \<open>B\<close>. A \<open>removeContact\<close> of a name that is not among the
  contacts raises \<open>NotInCollectionError\<close> and leaves the state as it was.
\<close>

theorem contacts_reciprocal:
  "(b \<in> set (contacts (parts (run cs empty_service) a))) =
     (a \<in> set (reverseContacts (parts (run cs empty_service) b)))
 \<and> ((\<forall>k \<in> set (contacts (parts s self)). name (parts s k) \<noteq> n) \<longrightarrow>
      removeContact self n s =
        (s, Inl (NotInCollectionError
                   (''No such contact '' @ [CHR 0x27] @ n @ [CHR 0x27] @ ''.''))))"
proof
  have "consistent (run cs empty_service)"
    using empty_service_consistent by (rule run_consistent)
  then show "(b \<in> set (contacts (parts (run cs empty_service) a))) =
     (a \<in> set (reverseContacts (parts (run cs empty_service) b)))"
    by (simp add: in_set_count_list consistentD(1))
next
  show "(\<forall>k \<in> set (contacts (parts s self)). name (parts s k) \<noteq> n) \<longrightarrow>
      removeContact self n s =
        (s, Inl (NotInCollectionError
                   (''No such contact '' @ [CHR 0x27] @ n @ [CHR 0x27] @ ''.'')))"
  proof
    assume "\<forall>k \<in> set (contacts (parts s self)). name (parts s k) \<noteq> n"
    then have "find (\<lambda>c. name (parts s c) = n) (contacts (parts s self)) = None"
      by (simp add: find_None_iff)
    then show "removeContact self n s =
        (s, Inl (NotInCollectionError
                   (''No such contact '' @ [CHR 0x27] @ n @ [CHR 0x27] @ ''.'')))"
      by (simp add: removeContact_def)
  qed
qed

text \<open>
  Alice adds Bob twice and removes him once: Bob is still her contact and she is still
  his reverse contact. Removing "carol", who is no contact, raises and changes nothing.
\<close>

theorem contacts_reciprocal_witness:
  "(Suc 0 \<in> set (contacts (parts (run [CreateParticipant ''alice'', CreateParticipant ''bob'',
        AddContact ''alice'' ''bob'', AddContact ''alice'' ''bob'',
        RemoveContact ''alice'' ''bob''] empty_service) 0)))
 \<and> (0 \<in> set (reverseContacts (parts (run [CreateParticipant ''alice'', CreateParticipant ''bob'',
        AddContact ''alice'' ''bob'', AddContact ''alice'' ''bob'',
        RemoveContact ''alice'' ''bob''] empty_service) (Suc 0))))
 \<and> removeContact 0 ''carol'' (run [AddContact ''alice'' ''bob''] two_users) =
      (run [AddContact ''alice'' ''bob''] two_users,
       Inl (NotInCollectionError ''No such contact 'carol'.''))"
proof -
  define cs where "cs = [CreateParticipant ''alice'', CreateParticipant ''bob'',
        AddContact ''alice'' ''bob'', AddContact ''alice'' ''bob'',
        RemoveContact ''alice'' ''bob'']"
  define s where "s = run [AddContact ''alice'' ''bob''] two_users"
  have l: "contacts (parts (run cs empty_service) 0) = [Suc 0]"
    unfolding cs_def by code_simp
  have f: "contacts (parts s 0) = [Suc 0]" "name (parts s (Suc 0)) = ''bob''"
    unfolding s_def by code_simp+
  have "Suc 0 \<in> set (contacts (parts (run cs empty_service) 0))"
    by (simp add: l)
  moreover from this have "0 \<in> set (reverseContacts (parts (run cs empty_service) (Suc 0)))"
    using contacts_reciprocal [of "Suc 0" cs 0] by simp
  moreover have "removeContact 0 ''carol'' s =
      (s, Inl (NotInCollectionError ''No such contact 'carol'.''))"
    using contacts_reciprocal [of _ _ _ s 0 "''carol''"] by (simp add: f)
  ultimately show ?thesis
    unfolding cs_def s_def by blast
qed

subsection \<open>C3: groups and members\<close>

text \<open>
  C3. In every state reached from the empty service by any sequence of calls
  (\<open>joinGroup\<close>, \<open>leaveGroup\<close>, \<open>detached\<close> and all the others, raising or not), \<open>G\<close> is in
  \<open>P\<close>'s groups if and only if \<open>P\<close> is in \<open>G\<close>'s members, for every participant \<open>P\<close> and
  group \<open>G\<close>.
\<close>

theorem groups_members_symmetric:
  "(g \<in> set (groups (parts (run cs empty_service) p))) =
     (p \<in> set (members (grps (run cs empty_service) g)))"
proof -
  have "consistent (run cs empty_service)"
    using empty_service_consistent by (rule run_consistent)
  then show ?thesis
    by (simp add: in_set_count_list consistentD(2))
qed

text \<open>
  Alice and Bob attach and join the lobby, Bob also the cellar; Alice leaves the lobby
  and Bob detaches. Before Bob detaches he is a member of the cellar; afterwards he is
  in no group and no group has him.
\<close>

theorem groups_members_symmetric_witness:
  "Suc 0 \<in> set (members (grps (run [CreateParticipant ''alice'', CreateParticipant ''bob'',
        Attach ''alice'' (plain_client 5), Attach ''bob'' (plain_client 7),
        JoinGroup ''alice'' ''lobby'', JoinGroup ''bob'' ''lobby'', JoinGroup ''bob'' ''cellar'',
        LeaveGroup ''alice'' ''lobby''] empty_service) (Suc 0)))
 \<and> Suc 0 \<notin> set (members (grps (run [CreateParticipant ''alice'', CreateParticipant ''bob'',
        Attach ''alice'' (plain_client 5), Attach ''bob'' (plain_client 7),
        JoinGroup ''alice'' ''lobby'', JoinGroup ''bob'' ''lobby'', JoinGroup ''bob'' ''cellar'',
        LeaveGroup ''alice'' ''lobby'', Detach ''bob''] empty_service) (Suc 0)))"
proof -
  define cs where "cs = [CreateParticipant ''alice'', CreateParticipant ''bob'',
        Attach ''alice'' (plain_client 5), Attach ''bob'' (plain_client 7),
        JoinGroup ''alice'' ''lobby'', JoinGroup ''bob'' ''lobby'', JoinGroup ''bob'' ''cellar'',
        LeaveGroup ''alice'' ''lobby'']"
  have a: "groups (parts (run cs empty_service) (Suc 0)) = [0, Suc 0]"
    unfolding cs_def by code_simp
  have b: "groups (parts (run (cs @ [Detach ''bob'']) empty_service) (Suc 0)) = []"
    unfolding cs_def by code_simp
  have "Suc 0 \<in> set (members (grps (run cs empty_service) (Suc 0)))"
    using groups_members_symmetric [of "Suc 0" cs "Suc 0"] by (simp add: a)
  moreover have "Suc 0 \<notin> set (members (grps (run (cs @ [Detach ''bob'']) empty_service) (Suc 0)))"
    using groups_members_symmetric [of "Suc 0" "cs @ [Detach ''bob'']" "Suc 0"] by (simp add: b)
  ultimately show ?thesis
    unfolding cs_def by simp
qed

subsection \<open>C5: detaching\<close>

lemma removeMember_parts: "parts (fst (removeMember g p s)) = parts s"
  by (simp add: removeMember_eq)

lemma removeMember_errors:
  "snd (removeMember g p s) = Inr () \<or> snd (removeMember g p s) = Inl AttributeError
 \<or> snd (removeMember g p s) =
       Inl (NotInGroupError (group_name (grps s g)) (Some (name (parts s p))))"
  by (simp add: removeMember_eq)

text \<open>
  Leaving the group at the head of the participant's list: the head is the first group
  of that name, so it is the one removed.
\<close>

lemma leaveGroup_head:
  assumes "groups (parts s self) = g # gs"
  shows "leaveGroup self (group_name (grps s g)) s =
           removeMember g self (upd_participant self (\<lambda>p. p\<lparr>groups := gs\<rparr>) s)"
  by (simp add: leaveGroup_def assms) (simp add: upd_participant_def assms)

lemma leave_all_spec:
  "groups (parts s self) = gs \<Longrightarrow>
     (snd (leave_all self gs s) = Inr () \<or> snd (leave_all self gs s) = Inl AttributeError)
   \<and> (snd (leave_all self gs s) = Inr () \<longrightarrow>
        groups (parts (fst (leave_all self gs s)) self) = [])
   \<and> client (parts (fst (leave_all self gs s)) self) = client (parts s self)
   \<and> status (parts (fst (leave_all self gs s)) self) = status (parts s self)"
proof (induction gs arbitrary: s)
  case Nil
  then show ?case by simp
next
  case (Cons g gs)
  define s1 where "s1 = upd_participant self (\<lambda>p. p\<lparr>groups := gs\<rparr>) s"
  obtain s2 r where rm: "removeMember g self s1 = (s2, r)"
    by (cases "removeMember g self s1")
  have lg: "leaveGroup self (group_name (grps s g)) s = (s2, r)"
    by (simp add: leaveGroup_head [OF Cons.prems] s1_def [symmetric] rm)
  have p2: "parts s2 = parts s1"
    using removeMember_parts [of g self s1] by (simp add: rm)
  have g2: "groups (parts s2 self) = gs"
    by (simp add: p2 s1_def)
  have same: "client (parts s2 self) = client (parts s self)"
             "status (parts s2 self) = status (parts s self)"
    by (simp_all add: p2 s1_def)
  note ih = Cons.IH [OF g2]
  consider "r = Inr ()" | "r = Inl AttributeError"
    | "r = Inl (NotInGroupError (group_name (grps s1 g)) (Some (name (parts s1 self))))"
    using removeMember_errors [of g self s1] by (auto simp: rm)
  then show ?case
  proof cases
    case 1
    then show ?thesis using ih by (simp add: lg same)
  next
    case 2
    then show ?thesis by (simp add: lg same)
  next
    case 3
    then show ?thesis using ih by (simp add: lg same)
  qed
qed

lemma detached_eq:
  "detached self s =
     (let s1 = upd_participant self (\<lambda>p. p\<lparr>client := None\<rparr>) s;
          r = leave_all self (groups (parts s self)) s1
      in if snd r = Inr () then (changeStatus self OFFLINE (fst r), Inr ())
         else (fst r, Inl AttributeError))"
proof -
  define s1 where "s1 = upd_participant self (\<lambda>p. p\<lparr>client := None\<rparr>) s"
  have g1: "groups (parts s1 self) = groups (parts s self)"
    by (simp add: s1_def)
  obtain s2 r where l: "leave_all self (groups (parts s self)) s1 = (s2, r)"
    by (cases "leave_all self (groups (parts s self)) s1")
  have "r = Inr () \<or> r = Inl AttributeError"
    using leave_all_spec [OF g1] by (simp add: l)
  then show ?thesis
    by (auto simp: detached_def Let_def s1_def [symmetric] g1 l)
qed

text \<open>
  What \<open>detached\<close> does ensure, in every state. The client is cleared. A
  \<open>NotInGroupError\<close> raised by a \<open>leaveGroup\<close> of the cleanup loop never reaches the
  caller: the only exception \<open>detached\<close> can raise is the \<^verbatim>\<open>AttributeError\<close> of a
  notice to a member without a client. If \<open>detached\<close> returns, the status is \<open>OFFLINE\<close> and
  the participant is in no group.
\<close>

lemma detached_when_it_returns:
  "(snd (detached self s) = Inr () \<longrightarrow>
      client (parts (fst (detached self s)) self) = None
    \<and> status (parts (fst (detached self s)) self) = OFFLINE
    \<and> groups (parts (fst (detached self s)) self) = [])
 \<and> (\<forall>n q. snd (detached self s) \<noteq> Inl (NotInGroupError n q))
 \<and> client (parts (fst (detached self s)) self) = None"
proof -
  define s1 where "s1 = upd_participant self (\<lambda>p. p\<lparr>client := None\<rparr>) s"
  have g1: "groups (parts s1 self) = groups (parts s self)"
    by (simp add: s1_def)
  note sp = leave_all_spec [OF g1]
  have c1: "client (parts s1 self) = None"
    by (simp add: s1_def)
  show ?thesis
    using sp c1
    by (auto simp: detached_eq Let_def s1_def [symmetric] changeStatus_eq)
qed


text \<open>
  Alice's list names a group that does not have her as a member: the \<open>leaveGroup\<close> of
  the loop raises \<open>NotInGroupError\<close>, and \<open>detached\<close> returns all the same. Bob detaches
  from an ordinary session, away and in the lobby.
\<close>

lemma detached_when_it_returns_example:
  "snd (leaveGroup 0 [] (upd_participant 0 (\<lambda>p. p\<lparr>groups := [5]\<rparr>) two_users))
     = Inl (NotInGroupError [] (Some ''alice''))
 \<and> snd (detached 0 (upd_participant 0 (\<lambda>p. p\<lparr>groups := [5]\<rparr>) two_users)) = Inr ()
 \<and> groups (parts (fst (detached 0 (upd_participant 0 (\<lambda>p. p\<lparr>groups := [5]\<rparr>) two_users))) 0)
     = []
 \<and> status (parts (fst (detached (Suc 0)
      (run [Attach ''bob'' (plain_client 7), JoinGroup ''bob'' ''lobby'',
            ChangeStatus ''bob'' AWAY] two_users))) (Suc 0)) = OFFLINE
 \<and> groups (parts (fst (detached (Suc 0)
      (run [Attach ''bob'' (plain_client 7), JoinGroup ''bob'' ''lobby'',
            ChangeStatus ''bob'' AWAY] two_users))) (Suc 0)) = []
 \<and> client (parts (fst (detached (Suc 0)
      (run [Attach ''bob'' (plain_client 7), JoinGroup ''bob'' ''lobby'',
            ChangeStatus ''bob'' AWAY] two_users))) (Suc 0)) = None"
proof -
  define s where "s = upd_participant 0 (\<lambda>p. p\<lparr>groups := [5]\<rparr>) two_users"
  define t where "t = run [Attach ''bob'' (plain_client 7), JoinGroup ''bob'' ''lobby'',
            ChangeStatus ''bob'' AWAY] two_users"
  have l: "snd (leaveGroup 0 [] s) = Inl (NotInGroupError [] (Some ''alice''))"
    unfolding s_def by code_simp
  have ok: "snd (detached 0 s) = Inr ()" "snd (detached (Suc 0) t) = Inr ()"
    unfolding s_def t_def by code_simp+
  show ?thesis
    unfolding s_def [symmetric] t_def [symmetric]
    using detached_when_it_returns [of 0 s] detached_when_it_returns [of "Suc 0" t]
    by (simp add: l ok)
qed

text \<open>
  C5 says that after \<open>detached\<close> the participant has no client, is \<open>OFFLINE\<close> and is in
  no group, whatever the state before, errors of the cleanup being swallowed. The code
  swallows \<open>NotInGroupError\<close> only. Bob, attached, is in the lobby and in the cellar;
  Alice, who never attached, is in the lobby too. When Bob detaches, the notice to Alice
  of his leaving the lobby uses her missing client and raises \<^verbatim>\<open>AttributeError\<close>, which
  ends \<open>detached\<close>: Bob is left without a client, still \<open>ONLINE\<close> and still in the
  cellar.
\<close>

theorem detached_aborted_by_notice:
  "snd (detached (Suc 0)
      (run [Attach ''bob'' (plain_client 7), JoinGroup ''bob'' ''lobby'',
            JoinGroup ''bob'' ''cellar'', JoinGroup ''alice'' ''lobby''] two_users))
     = Inl AttributeError
 \<and> status (parts (fst (detached (Suc 0)
      (run [Attach ''bob'' (plain_client 7), JoinGroup ''bob'' ''lobby'',
            JoinGroup ''bob'' ''cellar'', JoinGroup ''alice'' ''lobby''] two_users))) (Suc 0))
     = ONLINE
 \<and> groups (parts (fst (detached (Suc 0)
      (run [Attach ''bob'' (plain_client 7), JoinGroup ''bob'' ''lobby'',
            JoinGroup ''bob'' ''cellar'', JoinGroup ''alice'' ''lobby''] two_users))) (Suc 0))
     = [Suc 0]
 \<and> client (parts (fst (detached (Suc 0)
      (run [Attach ''bob'' (plain_client 7), JoinGroup ''bob'' ''lobby'',
            JoinGroup ''bob'' ''cellar'', JoinGroup ''alice'' ''lobby''] two_users))) (Suc 0))
     = None
 \<and> members (grps (run [Attach ''bob'' (plain_client 7), JoinGroup ''bob'' ''lobby'',
            JoinGroup ''bob'' ''cellar'', JoinGroup ''alice'' ''lobby''] two_users) 0)
     = [Suc 0, 0]
 \<and> client (parts (run [Attach ''bob'' (plain_client 7), JoinGroup ''bob'' ''lobby'',
            JoinGroup ''bob'' ''cellar'', JoinGroup ''alice'' ''lobby''] two_users) 0)
     = None"
  by code_simp

subsection \<open>C8: joining twice\<close>

lemma addMember_frame:
  "service_groups (fst (addMember g p s)) = service_groups s"
  "parts (fst (addMember g p s)) = parts s"
  by (simp_all add: addMember_eq)

text \<open>
  C8. After a \<open>joinGroup\<close> that returned normally, a second \<open>joinGroup\<close> with the same
  name returns normally and leaves the whole state as it is: the participant's groups,
  the group's members, and the pushes received by the clients.
\<close>

theorem joinGroup_idempotent:
  "snd (joinGroup self n s) = Inr () \<longrightarrow>
     joinGroup self n (fst (joinGroup self n s)) = (fst (joinGroup self n s), Inr ())"
proof
  assume ok: "snd (joinGroup self n s) = Inr ()"
  obtain s0 g where gg: "getGroup n s = (s0, g)"
    by (cases "getGroup n s")
  have reg0: "service_groups s0 n = Some g"
    using getGroup_registered [of n s] by (simp add: gg)
  define s1 where "s1 = fst (joinGroup self n s)"
  have "service_groups s1 n = Some g \<and> g \<in> set (groups (parts s1 self))"
  proof (cases "g \<in> set (groups (parts s0 self))")
    case True
    then show ?thesis by (simp add: s1_def joinGroup_def gg reg0)
  next
    case False
    obtain s2 r where am: "addMember g self s0 = (s2, r)"
      by (cases "addMember g self s0")
    have r: "r = Inr ()"
      using ok False by (simp add: joinGroup_def gg am split: sum.splits)
    have "service_groups s2 = service_groups s0"
      using addMember_frame(1) [of g self s0] by (simp add: am)
    then show ?thesis
      using False by (simp add: s1_def joinGroup_def gg am r reg0)
  qed
  then have "joinGroup self n s1 = (s1, Inr ())"
    by (simp add: joinGroup_def getGroup_def)
  then show "joinGroup self n (fst (joinGroup self n s)) = (fst (joinGroup self n s), Inr ())"
    by (simp add: s1_def)
qed

text \<open>
  Bob joins the lobby, where Alice already is, and joins again: the second call pushes
  nothing (the log still ends with the metadata pushed to Bob by the first).
\<close>

theorem joinGroup_idempotent_witness:
  "joinGroup (Suc 0) ''lobby''
     (run [Attach ''alice'' (plain_client 5), Attach ''bob'' (plain_client 7),
           JoinGroup ''alice'' ''lobby'', JoinGroup ''bob'' ''lobby''] two_users)
   = (run [Attach ''alice'' (plain_client 5), Attach ''bob'' (plain_client 7),
           JoinGroup ''alice'' ''lobby'', JoinGroup ''bob'' ''lobby''] two_users, Inr ())
 \<and> members (grps (run [Attach ''alice'' (plain_client 5), Attach ''bob'' (plain_client 7),
           JoinGroup ''alice'' ''lobby'', JoinGroup ''bob'' ''lobby''] two_users) 0)
   = [0, Suc 0]"
proof -
  define s where "s = run [Attach ''alice'' (plain_client 5), Attach ''bob'' (plain_client 7),
           JoinGroup ''alice'' ''lobby''] two_users"
  have p: "participants s ''bob'' = Some (Suc 0)"
    unfolding s_def by code_simp
  have ok: "snd (joinGroup (Suc 0) ''lobby'' s) = Inr ()"
    unfolding s_def by code_simp
  have m: "members (grps (fst (joinGroup (Suc 0) ''lobby'' s)) 0) = [0, Suc 0]"
    unfolding s_def by code_simp
  have r: "run [Attach ''alice'' (plain_client 5), Attach ''bob'' (plain_client 7),
           JoinGroup ''alice'' ''lobby'', JoinGroup ''bob'' ''lobby''] two_users
         = fst (joinGroup (Suc 0) ''lobby'' s)"
  proof -
    have "run [Attach ''alice'' (plain_client 5), Attach ''bob'' (plain_client 7),
           JoinGroup ''alice'' ''lobby'', JoinGroup ''bob'' ''lobby''] two_users
         = perform (JoinGroup ''bob'' ''lobby'') s"
      unfolding s_def by (simp only: run.simps)
    also have "\<dots> = fst (joinGroup (Suc 0) ''lobby'' s)"
      by (simp add: on_participant_def getPerspectiveNamed_def p)
    finally show ?thesis .
  qed
  show ?thesis
    unfolding r using joinGroup_idempotent [of "Suc 0" "''lobby''" s] by (simp add: ok m)
qed

subsection \<open>C9: the groups of the directory\<close>

text \<open>No call removes or replaces an entry of the directory of groups.\<close>

lemma getGroup_keeps:
  "service_groups s n = Some g \<Longrightarrow> service_groups (fst (getGroup m s)) n = Some g"
  by (auto simp: getGroup_def Let_def split: option.splits)

lemma same_links_service_groups: "same_links s t \<Longrightarrow> service_groups t = service_groups s"
  by (simp add: same_links_def)

lemma createParticipant_service_groups:
  "service_groups (fst (createParticipant n s)) = service_groups s"
  by (simp add: createParticipant_def Let_def split: option.splits)

lemma addContact_service_groups:
  "service_groups (fst (addContact self n s)) = service_groups s"
  by (simp add: addContact_def getPerspectiveNamed_def notifyStatusChanged_eq Let_def
           split: option.splits)

lemma removeContact_service_groups:
  "service_groups (fst (removeContact self n s)) = service_groups s"
  by (simp add: removeContact_def Let_def split: option.splits)

lemma leaveGroup_service_groups:
  "service_groups (fst (leaveGroup self n s)) = service_groups s"
  by (simp add: leaveGroup_def removeMember_eq split: option.splits)

lemma leave_all_service_groups:
  "service_groups (fst (leave_all self gs s)) = service_groups s"
proof (induction gs arbitrary: s)
  case Nil
  show ?case by simp
next
  case (Cons g gs)
  obtain s' r where l: "leaveGroup self (group_name (grps s g)) s = (s', r)"
    by (cases "leaveGroup self (group_name (grps s g)) s")
  have s': "service_groups s' = service_groups s"
    using leaveGroup_service_groups [of self "group_name (grps s g)" s] by (simp add: l)
  show ?case
    by (simp add: l Cons.IH s' split: sum.splits error.splits)
qed

lemma detached_service_groups:
  "service_groups (fst (detached self s)) = service_groups s"
  by (simp add: detached_eq Let_def leave_all_service_groups changeStatus_eq)

lemma joinGroup_keeps:
  assumes "service_groups s n = Some g"
  shows "service_groups (fst (joinGroup self m s)) n = Some g"
proof -
  obtain s0 g' where gg: "getGroup m s = (s0, g')"
    by (cases "getGroup m s")
  have k: "service_groups s0 n = Some g"
    using getGroup_keeps [OF assms, of m] by (simp add: gg)
  obtain s2 r where am: "addMember g' self s0 = (s2, r)"
    by (cases "addMember g' self s0")
  have "service_groups s2 = service_groups s0"
    using addMember_frame(1) [of g' self s0] by (simp add: am)
  then show ?thesis
    using k by (simp add: joinGroup_def gg am split: sum.splits)
qed

lemma perform_keeps:
  assumes "service_groups s n = Some g"
  shows "service_groups (perform c s) n = Some g"
proof (cases c)
  case (CreateParticipant m)
  then show ?thesis using assms by (simp add: createParticipant_service_groups)
next
  case (GetGroup m)
  then show ?thesis using assms by (simp add: getGroup_keeps)
next
  case (Attach who cl)
  then show ?thesis using assms
    by (simp add: on_participant_def same_links_service_groups [OF attached_same_links]
          split: sum.splits)
next
  case (Detach who)
  then show ?thesis using assms
    by (simp add: on_participant_def detached_service_groups split: sum.splits)
next
  case (ChangeStatus who st)
  then show ?thesis using assms
    by (simp add: on_participant_def same_links_service_groups [OF changeStatus_same_links]
          split: sum.splits)
next
  case (AddContact who m)
  then show ?thesis using assms
    by (simp add: on_participant_def addContact_service_groups split: sum.splits)
next
  case (RemoveContact who m)
  then show ?thesis using assms
    by (simp add: on_participant_def removeContact_service_groups split: sum.splits)
next
  case (JoinGroup who m)
  then show ?thesis using assms
    by (simp add: on_participant_def joinGroup_keeps split: sum.splits)
next
  case (LeaveGroup who m)
  then show ?thesis using assms
    by (simp add: on_participant_def leaveGroup_service_groups split: sum.splits)
next
  case (GetGroupMembers who m)
  then show ?thesis using assms
    by (simp add: on_participant_def
          same_links_service_groups [OF same_heap_links [OF getGroupMembers_same_heap]]
          split: sum.splits)
next
  case (DirectMessage who m msg md)
  then show ?thesis using assms
    by (simp add: on_participant_def
          same_links_service_groups [OF same_heap_links [OF directMessage_same_heap]]
          split: sum.splits)
next
  case (GroupMessage who m msg md)
  then show ?thesis using assms
    by (simp add: on_participant_def
          same_links_service_groups [OF same_heap_links [OF groupMessage_same_heap]]
          split: sum.splits)
qed

lemma run_keeps:
  "service_groups s n = Some g \<Longrightarrow> service_groups (run cs s) n = Some g"
  by (induction cs arbitrary: s) (simp_all add: perform_keeps)

text \<open>What every call keeps of the groups and their directory.\<close>

lemma groups_kept_refl [simp]: "groups_kept s s"
  by (simp add: groups_kept_def)

lemma groups_kept_trans: "groups_kept s t \<Longrightarrow> groups_kept t u \<Longrightarrow> groups_kept s u"
  by (simp add: groups_kept_def)

lemma same_links_groups_kept: "same_links s t \<Longrightarrow> groups_kept s t"
  by (simp add: same_links_def groups_kept_def)

lemma createParticipant_groups_kept: "groups_kept s (fst (createParticipant n s))"
  by (simp add: createParticipant_def groups_kept_def Let_def split: option.splits)

lemma addContact_groups_kept: "groups_kept s (fst (addContact self n s))"
  by (simp add: addContact_def getPerspectiveNamed_def notifyStatusChanged_eq Let_def
        groups_kept_def split: option.splits)

lemma removeContact_groups_kept: "groups_kept s (fst (removeContact self n s))"
  by (simp add: removeContact_def Let_def groups_kept_def split: option.splits)

lemma addMember_groups_kept: "groups_kept s (fst (addMember g p s))"
  by (simp add: addMember_eq groups_kept_def)

lemma removeMember_groups_kept: "groups_kept s (fst (removeMember g p s))"
  by (simp add: removeMember_eq groups_kept_def)

lemma leaveGroup_groups_kept: "groups_kept s (fst (leaveGroup self n s))"
proof (cases "find (\<lambda>g. group_name (grps s g) = n) (groups (parts s self))")
  case None
  then show ?thesis by (simp add: leaveGroup_def)
next
  case (Some g)
  have "groups_kept s (upd_participant self (\<lambda>p. p\<lparr>groups := remove1 g (groups p)\<rparr>) s)"
    by (simp add: groups_kept_def)
  then show ?thesis
    unfolding leaveGroup_def Some option.case
    by (rule groups_kept_trans) (rule removeMember_groups_kept)
qed

lemma leave_all_groups_kept: "groups_kept s (fst (leave_all self gs s))"
proof (induction gs arbitrary: s)
  case Nil
  show ?case by simp
next
  case (Cons g gs)
  obtain s' r where l: "leaveGroup self (group_name (grps s g)) s = (s', r)"
    by (cases "leaveGroup self (group_name (grps s g)) s")
  have k: "groups_kept s s'"
    using leaveGroup_groups_kept [of s self "group_name (grps s g)"] by (simp add: l)
  have k': "groups_kept s (fst (leave_all self gs s'))"
    using k Cons.IH by (rule groups_kept_trans)
  show ?case
    using k k' by (simp add: l split: sum.splits error.splits)
qed

lemma detached_groups_kept: "groups_kept s (fst (detached self s))"
proof -
  define s1 where "s1 = upd_participant self (\<lambda>p. p\<lparr>client := None\<rparr>) s"
  define r where "r = leave_all self (groups (parts s self)) s1"
  have a: "groups_kept s s1"
    by (simp add: s1_def groups_kept_def)
  have b: "groups_kept s (fst r)"
    unfolding r_def using a leave_all_groups_kept by (rule groups_kept_trans)
  have c: "groups_kept s (changeStatus self OFFLINE (fst r))"
    using b same_links_groups_kept [OF changeStatus_same_links] by (rule groups_kept_trans)
  show ?thesis
    using b c by (simp add: detached_eq Let_def s1_def [symmetric] r_def [symmetric])
qed

lemma joinGroup_groups_kept: "groups_kept (fst (getGroup n s)) (fst (joinGroup self n s))"
proof -
  obtain s0 g where gg: "getGroup n s = (s0, g)"
    by (cases "getGroup n s")
  obtain s2 r where am: "addMember g self s0 = (s2, r)"
    by (cases "addMember g self s0")
  have a: "groups_kept s0 s2"
    using addMember_groups_kept [of s0 g self] by (simp add: am)
  have b: "groups_kept s2 (upd_participant self (\<lambda>p. p\<lparr>groups := groups p @ [g]\<rparr>) s2)"
    by (simp add: groups_kept_def)
  have c: "groups_kept s0 (upd_participant self (\<lambda>p. p\<lparr>groups := groups p @ [g]\<rparr>) s2)"
    using a b by (rule groups_kept_trans)
  show ?thesis
    using a c by (simp add: joinGroup_def gg am split: sum.splits)
qed

text \<open>
  Every call keeps the groups and their directory, but for the group that a
  \<open>getGroup\<close> at its beginning may create.
\<close>

lemma perform_shape:
  "groups_kept s (perform c s) \<or> (\<exists>n. groups_kept (fst (getGroup n s)) (perform c s))"
proof (cases c)
  case (CreateParticipant n)
  then show ?thesis by (simp add: createParticipant_groups_kept)
next
  case (GetGroup n)
  have "groups_kept (fst (getGroup n s)) (fst (getGroup n s))" by simp
  then show ?thesis unfolding GetGroup perform.simps by blast
next
  case (Attach who cl)
  then show ?thesis
    by (simp add: on_participant_def same_links_groups_kept [OF attached_same_links]
          split: sum.splits)
next
  case (Detach who)
  then show ?thesis
    by (simp add: on_participant_def detached_groups_kept split: sum.splits)
next
  case (ChangeStatus who st)
  then show ?thesis
    by (simp add: on_participant_def same_links_groups_kept [OF changeStatus_same_links]
          split: sum.splits)
next
  case (AddContact who n)
  then show ?thesis
    by (simp add: on_participant_def addContact_groups_kept split: sum.splits)
next
  case (RemoveContact who n)
  then show ?thesis
    by (simp add: on_participant_def removeContact_groups_kept split: sum.splits)
next
  case (JoinGroup who n)
  show ?thesis
  proof (cases "getPerspectiveNamed who s")
    case (Inl e)
    then show ?thesis by (simp add: JoinGroup on_participant_def)
  next
    case (Inr p)
    have "groups_kept (fst (getGroup n s)) (fst (joinGroup p n s))"
      by (rule joinGroup_groups_kept)
    then show ?thesis
      unfolding JoinGroup perform.simps on_participant_def Inr sum.case by blast
  qed
next
  case (LeaveGroup who n)
  then show ?thesis
    by (simp add: on_participant_def leaveGroup_groups_kept split: sum.splits)
next
  case (GetGroupMembers who n)
  then show ?thesis
    by (simp add: on_participant_def
          same_links_groups_kept [OF same_heap_links [OF getGroupMembers_same_heap]]
          split: sum.splits)
next
  case (DirectMessage who n msg md)
  then show ?thesis
    by (simp add: on_participant_def
          same_links_groups_kept [OF same_heap_links [OF directMessage_same_heap]]
          split: sum.splits)
next
  case (GroupMessage who n msg md)
  then show ?thesis
    by (simp add: on_participant_def
          same_links_groups_kept [OF same_heap_links [OF groupMessage_same_heap]]
          split: sum.splits)
qed


lemma empty_service_named: "directory_named empty_service"
  by (simp add: directory_named_def empty_service_def)

lemma groups_kept_named: "groups_kept s t \<Longrightarrow> directory_named s \<Longrightarrow> directory_named t"
  by (simp add: groups_kept_def directory_named_def)

lemma getGroup_named: "directory_named s \<Longrightarrow> directory_named (fst (getGroup n s))"
  by (auto simp: getGroup_def Let_def directory_named_def new_Group_def less_Suc_eq
           split: option.splits)

lemma perform_named:
  assumes "directory_named s"
  shows "directory_named (perform c s)"
  using perform_shape [of s c] groups_kept_named getGroup_named [OF assms] assms
  by blast

lemma run_named: "directory_named s \<Longrightarrow> directory_named (run cs s)"
  by (induction cs arbitrary: s) (simp_all add: perform_named)

text \<open>An allocated group keeps its name and its metadata through every call.\<close>

lemma groups_kept_stays:
  "groups_kept s t \<Longrightarrow> g < next_gid s \<Longrightarrow>
     g < next_gid t \<and> group_name (grps t g) = group_name (grps s g)
   \<and> metadata (grps t g) = metadata (grps s g)"
  by (simp add: groups_kept_def)

lemma getGroup_stays:
  "g < next_gid s \<Longrightarrow>
     g < next_gid (fst (getGroup n s))
   \<and> group_name (grps (fst (getGroup n s)) g) = group_name (grps s g)
   \<and> metadata (grps (fst (getGroup n s)) g) = metadata (grps s g)"
  by (simp add: getGroup_def Let_def split: option.splits)

lemma perform_stays:
  assumes "g < next_gid s"
  shows "g < next_gid (perform c s) \<and> group_name (grps (perform c s) g) = group_name (grps s g)
       \<and> metadata (grps (perform c s) g) = metadata (grps s g)"
proof -
  consider "groups_kept s (perform c s)"
    | n where "groups_kept (fst (getGroup n s)) (perform c s)"
    using perform_shape [of s c] by blast
  then show ?thesis
  proof cases
    case 1
    then show ?thesis using assms by (rule groups_kept_stays)
  next
    case 2
    note a = getGroup_stays [OF assms, of n]
    from a have "g < next_gid (fst (getGroup n s))" by simp
    with 2 have "g < next_gid (perform c s)
       \<and> group_name (grps (perform c s) g) = group_name (grps (fst (getGroup n s)) g)
       \<and> metadata (grps (perform c s) g) = metadata (grps (fst (getGroup n s)) g)"
      by (rule groups_kept_stays)
    with a show ?thesis by simp
  qed
qed

lemma run_stays:
  "g < next_gid s \<Longrightarrow>
     g < next_gid (run cs s) \<and> group_name (grps (run cs s) g) = group_name (grps s g)
   \<and> metadata (grps (run cs s) g) = metadata (grps s g)"
proof (induction cs arbitrary: s)
  case Nil
  then show ?case by simp
next
  case (Cons c cs)
  note a = perform_stays [OF Cons.prems, of c]
  from a have "g < next_gid (perform c s)" by simp
  from Cons.IH [OF this] a show ?case by simp
qed

text \<open>
  C9. In a state \<open>s\<close> reached from the empty service, let \<open>getGroup\<close> return the group
  \<open>g\<close>, and let any sequence of calls follow. Then \<open>getGroup\<close> of the same name returns
  \<open>g\<close> again and changes nothing, \<open>g\<close> has that name, and the directory has \<open>g\<close> under
  no other name. If the directory of \<open>s\<close> did not have the name, \<open>g\<close> is a new group:
  the directory of \<open>s\<close> has it under no name and no participant of \<open>s\<close> is in it, the
  call leaves the participants and the other groups as they are and adds the one entry
  to the directory, \<open>g\<close> starts with that name, no members and the metadata
  \<open>{topic: "Welcome to <name>!", topic_author: "admin"}\<close>, and it still has this
  metadata after the calls that follow.
\<close>

theorem getGroup_get_or_create:
  fixes cs0 :: "command list" and n :: string and cs :: "command list"
  defines "s \<equiv> run cs0 empty_service"
  defines "s1 \<equiv> fst (getGroup n s)"
  defines "g \<equiv> snd (getGroup n s)"
  defines "t \<equiv> run cs s1"
  shows "getGroup n t = (t, g)
       \<and> group_name (grps t g) = n
       \<and> (\<forall>m. service_groups t m = Some g \<longrightarrow> m = n)
       \<and> (service_groups s n = None \<longrightarrow>
             (\<forall>m. service_groups s m \<noteq> Some g)
           \<and> (\<forall>p. g \<notin> set (groups (parts s p)))
           \<and> parts s1 = parts s
           \<and> (\<forall>g'. g' \<noteq> g \<longrightarrow> grps s1 g' = grps s g')
           \<and> service_groups s1 = (service_groups s)(n \<mapsto> g)
           \<and> grps s1 g =
                \<lparr>group_name = n, members = [],
                 metadata = [(''topic'', ''Welcome to '' @ n @ ''!''),
                             (''topic_author'', ''admin'')]\<rparr>
           \<and> metadata (grps t g) =
                [(''topic'', ''Welcome to '' @ n @ ''!''), (''topic_author'', ''admin'')])"
proof -
  have cons: "consistent s"
    unfolding s_def using empty_service_consistent by (rule run_consistent)
  have nm: "directory_named s"
    unfolding s_def using empty_service_named by (rule run_named)
  have nm1: "directory_named s1"
    unfolding s1_def using nm by (rule getGroup_named)
  have nmt: "directory_named t"
    unfolding t_def using nm1 by (rule run_named)
  have reg1: "service_groups s1 n = Some g"
    unfolding s1_def g_def by (rule getGroup_registered)
  have regt: "service_groups t n = Some g"
    unfolding t_def using reg1 by (rule run_keeps)
  have g1: "g < next_gid s1"
    using nm1 reg1 by (simp add: directory_named_def)
  note stay = run_stays [OF g1, of cs, folded t_def]
  have 1: "getGroup n t = (t, g)"
    using regt by (simp add: getGroup_def)
  have 2: "group_name (grps t g) = n"
    using nmt regt by (simp add: directory_named_def)
  have 3: "\<forall>m. service_groups t m = Some g \<longrightarrow> m = n"
    using nmt 2 by (auto simp: directory_named_def)
  have 4: "(\<forall>m. service_groups s m \<noteq> Some g)
           \<and> (\<forall>p. g \<notin> set (groups (parts s p)))
           \<and> parts s1 = parts s
           \<and> (\<forall>g'. g' \<noteq> g \<longrightarrow> grps s1 g' = grps s g')
           \<and> service_groups s1 = (service_groups s)(n \<mapsto> g)
           \<and> grps s1 g =
                \<lparr>group_name = n, members = [],
                 metadata = [(''topic'', ''Welcome to '' @ n @ ''!''),
                             (''topic_author'', ''admin'')]\<rparr>
           \<and> metadata (grps t g) =
                [(''topic'', ''Welcome to '' @ n @ ''!''), (''topic_author'', ''admin'')]"
    if none: "service_groups s n = None"
  proof -
    have g: "g = next_gid s"
      by (simp add: g_def getGroup_def none Let_def)
    have s1: "s1 = s\<lparr>grps := (grps s)(g := new_Group n), next_gid := Suc g,
                     service_groups := (service_groups s)(n \<mapsto> g)\<rparr>"
      by (simp add: s1_def g getGroup_def none Let_def)
    have a: "\<forall>m. service_groups s m \<noteq> Some g"
      using consistentD(8) [OF cons] by (auto simp: g)
    have "members (grps s g) = []"
      using consistentD(6) [OF cons, of g] by (simp add: g)
    then have b: "\<forall>p. g \<notin> set (groups (parts s p))"
      by (simp add: in_set_count_list consistentD(2) [OF cons])
    have c: "grps s1 g =
                \<lparr>group_name = n, members = [],
                 metadata = [(''topic'', ''Welcome to '' @ n @ ''!''),
                             (''topic_author'', ''admin'')]\<rparr>"
      by (simp add: s1 new_Group_def)
    have d: "metadata (grps t g) =
                [(''topic'', ''Welcome to '' @ n @ ''!''), (''topic_author'', ''admin'')]"
      using stay by (simp add: c)
    show ?thesis
      using a b c d by (simp add: s1)
  qed
  show ?thesis
    using 1 2 3 4 by blast
qed

text \<open>
  With Alice and Bob created, the lobby is a new group, number 0, with its welcome
  topic. After Alice has joined it and a cellar has been created, the lobby is still
  group 0 with the same name and topic, and the cellar is another group.
\<close>

theorem getGroup_get_or_create_witness:
  "snd (getGroup ''lobby'' (run [CreateParticipant ''alice'', CreateParticipant ''bob'']
                              empty_service)) = 0
 \<and> snd (getGroup ''lobby''
      (run [JoinGroup ''alice'' ''lobby'', GetGroup ''cellar'']
         (fst (getGroup ''lobby'' (run [CreateParticipant ''alice'', CreateParticipant ''bob'']
                                     empty_service))))) = 0
 \<and> group_name (grps
      (run [JoinGroup ''alice'' ''lobby'', GetGroup ''cellar'']
         (fst (getGroup ''lobby'' (run [CreateParticipant ''alice'', CreateParticipant ''bob'']
                                     empty_service)))) 0) = ''lobby''
 \<and> metadata (grps
      (run [JoinGroup ''alice'' ''lobby'', GetGroup ''cellar'']
         (fst (getGroup ''lobby'' (run [CreateParticipant ''alice'', CreateParticipant ''bob'']
                                     empty_service)))) 0)
     = [(''topic'', ''Welcome to lobby!''), (''topic_author'', ''admin'')]
 \<and> service_groups
      (run [JoinGroup ''alice'' ''lobby'', GetGroup ''cellar'']
         (fst (getGroup ''lobby'' (run [CreateParticipant ''alice'', CreateParticipant ''bob'']
                                     empty_service)))) ''cellar'' = Some (Suc 0)"
proof -
  define cs0 where "cs0 = [CreateParticipant ''alice'', CreateParticipant ''bob'']"
  define cs where "cs = [JoinGroup ''alice'' ''lobby'', GetGroup ''cellar'']"
  define r where "r = getGroup ''lobby'' (run cs0 empty_service)"
  define t where "t = run cs (fst r)"
  have n: "service_groups (run cs0 empty_service) ''lobby'' = None"
    unfolding cs0_def by code_simp
  have g: "snd r = 0"
    unfolding r_def cs0_def by code_simp
  have k: "service_groups t ''cellar'' = Some (Suc 0)"
    unfolding t_def r_def cs_def cs0_def by code_simp
  note th = getGroup_get_or_create [where ?cs0.0 = cs0 and n = "''lobby''" and cs = cs,
              folded r_def, folded t_def]
  have a: "getGroup ''lobby'' t = (t, snd r)"
    using th by blast
  have b: "group_name (grps t (snd r)) = ''lobby''"
    using th by blast
  have c: "metadata (grps t (snd r)) =
             [(''topic'', ''Welcome to '' @ ''lobby'' @ ''!''), (''topic_author'', ''admin'')]"
    using th n by blast
  show ?thesis
    unfolding cs0_def [symmetric] cs_def [symmetric] r_def [symmetric] t_def [symmetric]
    using b c by (simp add: a g k)
qed

end
